theory Spec2Isabelle
  imports Complex_Main
begin

text \<open>
  The annotation engine of AnnotaPDF (\<^verbatim>\<open>src/js/app.js\<close>): highlights, tabs, undo and redo, zoom,
  rotation and erasing, as functions on an explicit application state. Rendering, file
  loading and export are left to the browser; where a handler reads a value the browser
  computes (a pointer position, the clock, the canvas size), the value is an argument.
\<close>

section \<open>JavaScript numbers\<close>

text \<open>
  The coordinates, scales and canvas extents of \<^verbatim>\<open>app.js\<close> are JavaScript numbers: IEEE 754
  binary64 values, and every \<^verbatim>\<open>+ - * /\<close> on them rounds its exact result to the nearest
  binary64 value, ties to the even significand. A finite binary64 value is a real number, so
  the model carries numbers as \<^typ>\<open>real\<close> and writes the rounding out: \<open>js_add\<close>, \<open>js_sub\<close>,
  \<open>js_mul\<close> and \<open>js_div\<close> round the exact result with \<open>round64\<close>.

  \<open>round64\<close> keeps 53 significant bits. The exponent range of binary64 is not modelled:
  magnitudes beyond \<open>2 ^ 1024\<close> (which JavaScript turns into \<open>Infinity\<close>), results below
  \<open>2 ^ - 1022\<close> (subnormal), the sign of zero and \<open>NaN\<close> are outside the model, and so is a
  division by zero (\<open>Infinity\<close> or \<open>NaN\<close> in JavaScript, \<open>0\<close> in HOL): no statement below
  divides by a scale that may be zero. Identifiers, page numbers, opacity and rotation are
  integers far below \<open>2 ^ 53\<close>, where binary64 arithmetic is exact; they are modelled as
  \<^typ>\<open>int\<close>.
\<close>

text \<open>The binary exponent of a real \<open>v \<ge> 1\<close>: how often it can be halved before it drops below 2.\<close>

function ilog2_up :: "real \<Rightarrow> int" where
  "ilog2_up v = (if 2 \<le> v then ilog2_up (v / 2) + 1 else 0)"
  by pat_completeness auto
termination
  by (relation "measure (\<lambda>v. nat \<lfloor>v\<rfloor>)") (auto, linarith)

text \<open>The binary exponent of a real \<open>0 < v < 1\<close>: how often it must be doubled to reach 1.\<close>

function ilog2_down :: "real \<Rightarrow> int" where
  "ilog2_down v = (if 0 < v \<and> v < 1 then ilog2_down (v * 2) - 1 else 0)"
  by pat_completeness auto
termination
proof (relation "measure (\<lambda>v. nat \<lceil>1 / v\<rceil>)")
  show "wf (measure (\<lambda>v::real. nat \<lceil>1 / v\<rceil>))" by simp
next
  fix v :: real
  assume a: "0 < v \<and> v < 1"
  then have "1 < 1 / v" by simp
  then have c2: "2 \<le> \<lceil>1 / v\<rceil>" by linarith
  have "1 / (v * 2) = (1 / v) / 2" by simp
  also have "\<dots> \<le> of_int \<lceil>1 / v\<rceil> / 2" by (rule divide_right_mono) (linarith, simp)
  also have "\<dots> \<le> of_int (\<lceil>1 / v\<rceil> - 1)" using c2 by simp
  finally have "1 / (v * 2) \<le> of_int (\<lceil>1 / v\<rceil> - 1)" .
  then have "\<lceil>1 / (v * 2)\<rceil> \<le> \<lceil>1 / v\<rceil> - 1" by (simp only: ceiling_le_iff)
  with c2 a show "(v * 2, v) \<in> measure (\<lambda>v. nat \<lceil>1 / v\<rceil>)" by simp
qed

definition ilog2 :: "real \<Rightarrow> int" where
  "ilog2 v = (if 1 \<le> \<bar>v\<bar> then ilog2_up \<bar>v\<bar> else ilog2_down \<bar>v\<bar>)"

text \<open>Rounding to the nearest integer, a tie going to the even neighbour.\<close>

definition round_half_even :: "real \<Rightarrow> int" where
  "round_half_even t =
     (let f = \<lfloor>t\<rfloor>; d = t - of_int f
      in if d < 1 / 2 then f else if 1 / 2 < d then f + 1 else if even f then f else f + 1)"

text \<open>
  Rounding to binary64 precision: a non-zero \<open>v\<close> with \<open>2 ^ e \<le> \<bar>v\<bar> < 2 ^ (e + 1)\<close> is rounded
  to a multiple of \<open>2 ^ (e - 52)\<close>.
\<close>

definition round64 :: "real \<Rightarrow> real" where
  "round64 v =
     (if v = 0 then 0
      else of_int (round_half_even (v / 2 powi (ilog2 v - 52))) * 2 powi (ilog2 v - 52))"

definition js_add :: "real \<Rightarrow> real \<Rightarrow> real" where
  "js_add a b = round64 (a + b)"

definition js_sub :: "real \<Rightarrow> real \<Rightarrow> real" where
  "js_sub a b = round64 (a - b)"

definition js_mul :: "real \<Rightarrow> real \<Rightarrow> real" where
  "js_mul a b = round64 (a * b)"

definition js_div :: "real \<Rightarrow> real \<Rightarrow> real" where
  "js_div a b = round64 (a / b)"

text \<open>
  The remainder operator \<^verbatim>\<open>%\<close> on integers: the result has the sign of the dividend.
\<close>

definition js_rem :: "int \<Rightarrow> int \<Rightarrow> int" where
  "js_rem a b = sgn a * (\<bar>a\<bar> mod \<bar>b\<bar>)"

section \<open>Constants and data model\<close>

definition PDF_RENDER_SCALE :: real where
  "PDF_RENDER_SCALE = 3 / 2"

definition MAX_HISTORY_STEPS :: nat where
  "MAX_HISTORY_STEPS = 50"

definition MIN_HIGHLIGHT_PX :: real where
  "MIN_HIGHLIGHT_PX = 5"

text \<open>
  A highlight is the object literal pushed by \<^verbatim>\<open>onPointerUp\<close>:
  \<^verbatim>\<open>{id, page, x, y, w, h, color, opacity}\<close>. The fields carry the prefix \<open>hl_\<close>.
\<close>

record highlight =
  hl_id :: int
  hl_page :: int
  hl_x :: real
  hl_y :: real
  hl_w :: real
  hl_h :: real
  hl_color :: string
  hl_opacity :: int

datatype TabType = Pdf | Image

text \<open>
  \<^verbatim>\<open>class TabState\<close>. The handles \<^verbatim>\<open>pdfDoc\<close>, \<^verbatim>\<open>imgElement\<close> and \<^verbatim>\<open>imgSrc\<close> belong to the
  page renderer and are left out. \<open>history\<close> and \<open>future\<close> are arrays used as stacks: the top
  is the last element. A snapshot is a \<^verbatim>\<open>JSON.parse(JSON.stringify(...))\<close> copy of the
  highlight array, which for finite numbers and strings is a copy equal to the original; as
  a HOL value it is the list itself.
\<close>

record TabState =
  tab_id :: int
  tab_name :: string
  tab_type :: TabType
  currentPage :: int
  totalPages :: int
  scale :: real
  baseScale :: real
  rotation :: int
  highlights :: "highlight list"
  history :: "highlight list list"
  future :: "highlight list list"

datatype DrawMode = Highlight | Erase | Pan

datatype Dir = CW | CCW

text \<open>
  The module-level variables of \<^verbatim>\<open>app.js\<close> that the annotation engine reads or writes.
  \<open>activeTabId = None\<close> is \<^verbatim>\<open>null\<close>.
\<close>

record AppState =
  tabs :: "TabState list"
  activeTabId :: "int option"
  drawMode :: DrawMode
  activeColor :: string
  activeOpacity :: int
  isDrawing :: bool
  startX :: real
  startY :: real
  tabIdCounter :: int

text \<open>\<^verbatim>\<open>new TabState(id, name, type)\<close>.\<close>

definition newTabState :: "int \<Rightarrow> string \<Rightarrow> TabType \<Rightarrow> TabState" where
  "newTabState i n ty =
     \<lparr>tab_id = i, tab_name = n, tab_type = ty, currentPage = 1, totalPages = 1,
      scale = PDF_RENDER_SCALE, baseScale = PDF_RENDER_SCALE, rotation = 0,
      highlights = [], history = [], future = []\<rparr>"

text \<open>The state after the script has loaded: no tab, highlight tool, yellow at 100 percent.\<close>

definition initState :: AppState where
  "initState =
     \<lparr>tabs = [], activeTabId = None, drawMode = Highlight, activeColor = ''yellow'',
      activeOpacity = 100, isDrawing = False, startX = 0, startY = 0, tabIdCounter = 0\<rparr>"

section \<open>Tab management\<close>

text \<open>\<^verbatim>\<open>getTab\<close> (lines 406-408): \<^verbatim>\<open>tabs.find(t => t.id === activeTabId) || null\<close>.\<close>

definition getTab :: "AppState \<Rightarrow> TabState option" where
  "getTab s =
     (case activeTabId s of
        None \<Rightarrow> None
      | Some i \<Rightarrow> find (\<lambda>t. tab_id t = i) (tabs s))"

text \<open>
  The handlers fetch the active tab with \<^verbatim>\<open>const tab = getTab(); if (!tab) return;\<close> and then
  assign to fields of \<^verbatim>\<open>tab\<close>, which is the object held in \<^verbatim>\<open>tabs\<close>: the first one with the
  active id. \<open>updFirst\<close> rewrites that element in place, and \<open>withTab f\<close> is such a handler
  whose effect on the tab is \<open>f\<close>.
\<close>

fun updFirst :: "('a \<Rightarrow> bool) \<Rightarrow> ('a \<Rightarrow> 'a) \<Rightarrow> 'a list \<Rightarrow> 'a list" where
  "updFirst P f [] = []"
| "updFirst P f (t # ts) = (if P t then f t # ts else t # updFirst P f ts)"

definition withTab :: "(TabState \<Rightarrow> TabState) \<Rightarrow> AppState \<Rightarrow> AppState" where
  "withTab f s =
     (case activeTabId s of
        None \<Rightarrow> s
      | Some i \<Rightarrow> s\<lparr>tabs := updFirst (\<lambda>t. tab_id t = i) f (tabs s)\<rparr>)"

text \<open>
  \<^verbatim>\<open>createTab\<close> (lines 328-334): the id is \<^verbatim>\<open>++tabIdCounter\<close>, and the new tab is the last
  element of \<^verbatim>\<open>tabs\<close> afterwards.
\<close>

definition createTab :: "string \<Rightarrow> TabType \<Rightarrow> AppState \<Rightarrow> AppState" where
  "createTab n ty s =
     (let i = tabIdCounter s + 1
      in s\<lparr>tabIdCounter := i, tabs := tabs s @ [newTabState i n ty]\<rparr>)"

section \<open>Undo and redo\<close>

text \<open>
  \<^verbatim>\<open>pushHistory\<close> (lines 708-712), \<^verbatim>\<open>undo\<close> (714-722) and \<^verbatim>\<open>redo\<close> (724-732). \<open>undoTab\<close> and
  \<open>redoTab\<close> are what the two handlers do to the active tab.
\<close>

definition pushHistory :: "TabState \<Rightarrow> TabState" where
  "pushHistory tab =
     (let hist = history tab @ [highlights tab]
      in tab\<lparr>history := (if length hist > MAX_HISTORY_STEPS then tl hist else hist),
              future := []\<rparr>)"

definition undoTab :: "TabState \<Rightarrow> TabState" where
  "undoTab tab =
     (if history tab = [] then tab
      else tab\<lparr>future := future tab @ [highlights tab],
                highlights := last (history tab),
                history := butlast (history tab)\<rparr>)"

definition undo :: "AppState \<Rightarrow> AppState" where
  "undo = withTab undoTab"

definition redoTab :: "TabState \<Rightarrow> TabState" where
  "redoTab tab =
     (if future tab = [] then tab
      else tab\<lparr>history := history tab @ [highlights tab],
                highlights := last (future tab),
                future := butlast (future tab)\<rparr>)"

definition redo :: "AppState \<Rightarrow> AppState" where
  "redo = withTab redoTab"

section \<open>Zoom\<close>

text \<open>
  \<^verbatim>\<open>setScale\<close> (lines 743-759): every stored highlight is multiplied by
  \<^verbatim>\<open>newScale / tab.scale\<close>. The zoom label and the re-render are display only.
\<close>

definition rescale :: "real \<Rightarrow> highlight \<Rightarrow> highlight" where
  "rescale ratio h =
     h\<lparr>hl_x := js_mul (hl_x h) ratio, hl_y := js_mul (hl_y h) ratio,
       hl_w := js_mul (hl_w h) ratio, hl_h := js_mul (hl_h h) ratio\<rparr>"

definition setScaleTab :: "real \<Rightarrow> TabState \<Rightarrow> TabState" where
  "setScaleTab newScale tab =
     (let ratio = js_div newScale (scale tab)
      in tab\<lparr>highlights := map (rescale ratio) (highlights tab), scale := newScale\<rparr>)"

definition setScale :: "real \<Rightarrow> AppState \<Rightarrow> AppState" where
  "setScale newScale = withTab (setScaleTab newScale)"

text \<open>The click handlers of \<^verbatim>\<open>zoom-in\<close> and \<^verbatim>\<open>zoom-out\<close> (lines 761-769).\<close>

definition zoomIn :: "AppState \<Rightarrow> AppState" where
  "zoomIn s =
     (case getTab s of
        None \<Rightarrow> s
      | Some tab \<Rightarrow> setScale (min (js_add (scale tab) (1 / 4)) 5) s)"

definition zoomOut :: "AppState \<Rightarrow> AppState" where
  "zoomOut s =
     (case getTab s of
        None \<Rightarrow> s
      | Some tab \<Rightarrow> setScale (max (js_sub (scale tab) (1 / 4)) (1 / 4)) s)"

text \<open>
  The click handler of \<^verbatim>\<open>zoom-fit\<close> (lines 771-790). \<open>clientWidth\<close> is \<^verbatim>\<open>canvasArea.clientWidth\<close> and
  \<open>naturalW\<close> the width of the page at scale 1, both read from the browser.
\<close>

definition zoomFit :: "real \<Rightarrow> real \<Rightarrow> AppState \<Rightarrow> AppState" where
  "zoomFit clientWidth naturalW s =
     (case getTab s of
        None \<Rightarrow> s
      | Some tab \<Rightarrow>
          (let areaW = js_sub clientWidth 48;
               fit = js_div areaW naturalW
           in setScale fit (withTab (\<lambda>t. t\<lparr>baseScale := fit\<rparr>) s)))"

text \<open>
  \<^verbatim>\<open>activateTab\<close> (lines 363-375). With an id that no tab has, \<^verbatim>\<open>getTab()\<close> is \<^verbatim>\<open>null\<close> and the read of
  \<^verbatim>\<open>tab.scale\<close> throws after \<^verbatim>\<open>activeTabId\<close> has been assigned: the model returns the state
  at the throw.
\<close>

definition activateTab :: "int \<Rightarrow> AppState \<Rightarrow> AppState" where
  "activateTab i s =
     (let s1 = s\<lparr>activeTabId := Some i\<rparr>
      in case getTab s1 of
           None \<Rightarrow> s1
         | Some tab \<Rightarrow> setScale (scale tab) s1)"

text \<open>
  \<^verbatim>\<open>closeTab\<close> (lines 381-403). \<open>findIndex\<close> is \<^verbatim>\<open>tabs.findIndex(...)\<close>, with \<open>None\<close> for the result
  \<open>-1\<close>; \<^verbatim>\<open>tabs.splice(idx, 1)\<close> removes the element at \<open>idx\<close>. Revoking the object URL of an
  image is left to the browser.
\<close>

fun findIndex :: "('a \<Rightarrow> bool) \<Rightarrow> 'a list \<Rightarrow> nat option" where
  "findIndex P [] = None"
| "findIndex P (t # ts) = (if P t then Some 0 else map_option Suc (findIndex P ts))"

definition closeTab :: "int \<Rightarrow> AppState \<Rightarrow> AppState" where
  "closeTab i s =
     (case findIndex (\<lambda>t. tab_id t = i) (tabs s) of
        None \<Rightarrow> s
      | Some idx \<Rightarrow>
          (let ts = take idx (tabs s) @ drop (Suc idx) (tabs s);
               s1 = s\<lparr>tabs := ts\<rparr>
           in if length ts = 0 then s1\<lparr>activeTabId := None\<rparr>
              else activateTab (tab_id (ts ! min idx (length ts - 1))) s1))"

text \<open>
  The loaders, once the document has been decoded: \<^verbatim>\<open>createTab\<close>, the page count written
  into the new tab, \<^verbatim>\<open>activateTab\<close>.
\<close>

definition loadPdfFile :: "string \<Rightarrow> int \<Rightarrow> AppState \<Rightarrow> AppState" where
  "loadPdfFile n numPages s =
     (let s1 = createTab n Pdf s;
          tab = last (tabs s1);
          s2 = s1\<lparr>tabs := butlast (tabs s1) @ [tab\<lparr>totalPages := numPages\<rparr>]\<rparr>
      in activateTab (tab_id tab) s2)"

definition loadImageFile :: "string \<Rightarrow> AppState \<Rightarrow> AppState" where
  "loadImageFile n s =
     (let s1 = createTab n Image s;
          tab = last (tabs s1);
          s2 = s1\<lparr>tabs := butlast (tabs s1) @ [tab\<lparr>totalPages := 1\<rparr>]\<rparr>
      in activateTab (tab_id tab) s2)"

section \<open>Rotation\<close>

text \<open>
  \<^verbatim>\<open>rotate(dir)\<close> (lines 800-826). \<open>oldW\<close> and \<open>oldH\<close> are \<^verbatim>\<open>pdfCanvas.width\<close> and \<^verbatim>\<open>pdfCanvas.height\<close> as read
  on entry, before the page is rendered again. \<^verbatim>\<open>oldH - h.y - h.h\<close> is two subtractions, left
  to right.
\<close>

definition rotateRect :: "Dir \<Rightarrow> real \<Rightarrow> real \<Rightarrow> highlight \<Rightarrow> highlight" where
  "rotateRect dir oldW oldH h =
     (case dir of
        CW \<Rightarrow>
          h\<lparr>hl_x := js_sub (js_sub oldH (hl_y h)) (hl_h h), hl_y := hl_x h,
            hl_w := hl_h h, hl_h := hl_w h\<rparr>
      | CCW \<Rightarrow>
          h\<lparr>hl_x := hl_y h, hl_y := js_sub (js_sub oldW (hl_x h)) (hl_w h),
            hl_w := hl_h h, hl_h := hl_w h\<rparr>)"

definition rotateTab :: "Dir \<Rightarrow> real \<Rightarrow> real \<Rightarrow> TabState \<Rightarrow> TabState" where
  "rotateTab dir oldW oldH tab =
     tab\<lparr>rotation := js_rem (rotation tab + (case dir of CW \<Rightarrow> 90 | CCW \<Rightarrow> - 90) + 360) 360,
         highlights := map (rotateRect dir oldW oldH) (highlights tab)\<rparr>"

definition rotate :: "Dir \<Rightarrow> real \<Rightarrow> real \<Rightarrow> AppState \<Rightarrow> AppState" where
  "rotate dir oldW oldH = withTab (rotateTab dir oldW oldH)"

section \<open>Drawing, erasing and deleting\<close>

text \<open>
  The pointer handlers (lines 583-663), \<^verbatim>\<open>eraseAt\<close> (670-684) and \<^verbatim>\<open>deleteHighlight\<close> (690-698).
  The handlers take the position already converted by \<^verbatim>\<open>clientToCanvas\<close>, which reads the
  layout of the page. The preview rectangle and the pan scroll offsets are display only.
\<close>

definition onPointerDown :: "real \<Rightarrow> real \<Rightarrow> AppState \<Rightarrow> AppState" where
  "onPointerDown px py s =
     (if activeTabId s = None \<or> activeTabId s = Some 0 then s
      else s\<lparr>startX := px, startY := py, isDrawing := True\<rparr>)"

definition containsPoint :: "real \<Rightarrow> real \<Rightarrow> highlight \<Rightarrow> bool" where
  "containsPoint cx cy h =
     (cx \<ge> hl_x h \<and> cx \<le> js_add (hl_x h) (hl_w h) \<and>
      cy \<ge> hl_y h \<and> cy \<le> js_add (hl_y h) (hl_h h))"

definition eraseAtTab :: "real \<Rightarrow> real \<Rightarrow> TabState \<Rightarrow> TabState" where
  "eraseAtTab cx cy tab =
     tab\<lparr>highlights :=
           filter (\<lambda>h. if hl_page h \<noteq> currentPage tab then True
                       else \<not> containsPoint cx cy h)
             (highlights tab)\<rparr>"

definition eraseAt :: "real \<Rightarrow> real \<Rightarrow> AppState \<Rightarrow> AppState" where
  "eraseAt cx cy = withTab (eraseAtTab cx cy)"

definition onPointerMove :: "real \<Rightarrow> real \<Rightarrow> AppState \<Rightarrow> AppState" where
  "onPointerMove px py s =
     (if \<not> isDrawing s then s
      else if drawMode s = Pan then s
      else if drawMode s = Erase then eraseAt px py s
      else s)"

text \<open>
  \<^verbatim>\<open>onPointerUp\<close>. \<open>now\<close> is the value \<^verbatim>\<open>Date.now()\<close> returns when the highlight is built: the
  wall clock in milliseconds.
\<close>

definition addHighlight :: "highlight \<Rightarrow> TabState \<Rightarrow> TabState" where
  "addHighlight h tab =
     (let t1 = pushHistory tab in t1\<lparr>highlights := highlights t1 @ [h]\<rparr>)"

definition onPointerUp :: "real \<Rightarrow> real \<Rightarrow> int \<Rightarrow> AppState \<Rightarrow> AppState" where
  "onPointerUp px py now s =
     (if \<not> isDrawing s then s
      else
        let s1 = s\<lparr>isDrawing := False\<rparr>
        in if drawMode s1 = Pan \<or> drawMode s1 = Erase then s1
           else
             case getTab s1 of
               None \<Rightarrow> s1
             | Some tab \<Rightarrow>
                 (let x = min (startX s1) px;
                      y = min (startY s1) py;
                      w = \<bar>js_sub px (startX s1)\<bar>;
                      h = \<bar>js_sub py (startY s1)\<bar>
                  in if w < MIN_HIGHLIGHT_PX \<or> h < MIN_HIGHLIGHT_PX then s1
                     else withTab
                            (addHighlight
                               \<lparr>hl_id = now, hl_page = currentPage tab, hl_x = x, hl_y = y,
                                hl_w = w, hl_h = h, hl_color = activeColor s1,
                                hl_opacity = activeOpacity s1\<rparr>)
                            s1))"

text \<open>The \<^verbatim>\<open>mouseleave\<close> handler.\<close>

definition onPointerLeave :: "AppState \<Rightarrow> AppState" where
  "onPointerLeave s = (if isDrawing s then s\<lparr>isDrawing := False\<rparr> else s)"

definition deleteHighlightTab :: "int \<Rightarrow> TabState \<Rightarrow> TabState" where
  "deleteHighlightTab i tab =
     (let t1 = pushHistory tab
      in t1\<lparr>highlights := filter (\<lambda>h. hl_id h \<noteq> i) (highlights t1)\<rparr>)"

definition deleteHighlight :: "int \<Rightarrow> AppState \<Rightarrow> AppState" where
  "deleteHighlight i = withTab (deleteHighlightTab i)"

text \<open>The click handler of \<^verbatim>\<open>clear-page-btn\<close> (lines 1160-1167).\<close>

definition clearPageTab :: "TabState \<Rightarrow> TabState" where
  "clearPageTab tab =
     (let t1 = pushHistory tab
      in t1\<lparr>highlights := filter (\<lambda>h. hl_page h \<noteq> currentPage t1) (highlights t1)\<rparr>)"

definition clearPage :: "AppState \<Rightarrow> AppState" where
  "clearPage = withTab clearPageTab"

section \<open>Page navigation\<close>

text \<open>The handlers of \<^verbatim>\<open>prev-page\<close>, \<^verbatim>\<open>next-page\<close> and of the page label (lines 847-878).\<close>

definition prevPage :: "AppState \<Rightarrow> AppState" where
  "prevPage = withTab (\<lambda>t. if currentPage t \<le> 1 then t else t\<lparr>currentPage := currentPage t - 1\<rparr>)"

definition nextPage :: "AppState \<Rightarrow> AppState" where
  "nextPage =
     withTab (\<lambda>t. if currentPage t \<ge> totalPages t then t else t\<lparr>currentPage := currentPage t + 1\<rparr>)"

text \<open>The page prompt, for an answer that parses to the integer \<open>n\<close>.\<close>

definition gotoPage :: "int \<Rightarrow> AppState \<Rightarrow> AppState" where
  "gotoPage n =
     withTab (\<lambda>t. if totalPages t \<le> 1 then t
                  else if n < 1 \<or> n > totalPages t then t
                  else t\<lparr>currentPage := n\<rparr>)"

section \<open>Events\<close>

text \<open>
  What the user and the browser can make the application do, one constructor for each
  handler above. A tab can be clicked only while its element is in the tab bar, that is
  while \<^verbatim>\<open>tabs\<close> holds it.
\<close>

datatype Event =
    LoadPdf string int
  | LoadImage string
  | ActivateTab int
  | CloseTab int
  | PointerDown real real
  | PointerMove real real
  | PointerUp real real int
  | PointerLeave
  | DeleteHighlight int
  | ClearPage
  | Undo
  | Redo
  | ZoomIn
  | ZoomOut
  | ZoomFit real real
  | Rotate Dir real real
  | PrevPage
  | NextPage
  | GotoPage int
  | SetDrawMode DrawMode
  | SetColor string
  | SetOpacity int

fun step :: "Event \<Rightarrow> AppState \<Rightarrow> AppState" where
  "step (LoadPdf n numPages) s = loadPdfFile n numPages s"
| "step (LoadImage n) s = loadImageFile n s"
| "step (ActivateTab i) s = (if i \<in> set (map tab_id (tabs s)) then activateTab i s else s)"
| "step (CloseTab i) s = closeTab i s"
| "step (PointerDown px py) s = onPointerDown px py s"
| "step (PointerMove px py) s = onPointerMove px py s"
| "step (PointerUp px py now) s = onPointerUp px py now s"
| "step PointerLeave s = onPointerLeave s"
| "step (DeleteHighlight i) s = deleteHighlight i s"
| "step ClearPage s = clearPage s"
| "step Undo s = undo s"
| "step Redo s = redo s"
| "step ZoomIn s = zoomIn s"
| "step ZoomOut s = zoomOut s"
| "step (ZoomFit clientWidth naturalW) s = zoomFit clientWidth naturalW s"
| "step (Rotate dir oldW oldH) s = rotate dir oldW oldH s"
| "step PrevPage s = prevPage s"
| "step NextPage s = nextPage s"
| "step (GotoPage n) s = gotoPage n s"
| "step (SetDrawMode m) s = s\<lparr>drawMode := m\<rparr>"
| "step (SetColor c) s = s\<lparr>activeColor := c\<rparr>"
| "step (SetOpacity p) s = s\<lparr>activeOpacity := p\<rparr>"

text \<open>Running a sequence of events, the first one first.\<close>

fun run :: "Event list \<Rightarrow> AppState \<Rightarrow> AppState" where
  "run [] s = s"
| "run (e # es) s = run es (step e s)"

section \<open>Predicates used in the statements\<close>

text \<open>
  \<open>within_rounding r r'\<close>: \<open>r'\<close> is \<open>r\<close> except that each of \<open>x\<close>, \<open>y\<close>, \<open>w\<close>, \<open>h\<close> may differ from
  the original by a relative error of at most \<open>2 ^ - 50\<close>.
\<close>

definition within_rounding :: "highlight \<Rightarrow> highlight \<Rightarrow> bool" where
  "within_rounding r r' =
     (r'\<lparr>hl_x := hl_x r, hl_y := hl_y r, hl_w := hl_w r, hl_h := hl_h r\<rparr> = r \<and>
      \<bar>hl_x r' - hl_x r\<bar> \<le> \<bar>hl_x r\<bar> / 2 ^ 50 \<and>
      \<bar>hl_y r' - hl_y r\<bar> \<le> \<bar>hl_y r\<bar> / 2 ^ 50 \<and>
      \<bar>hl_w r' - hl_w r\<bar> \<le> \<bar>hl_w r\<bar> / 2 ^ 50 \<and>
      \<bar>hl_h r' - hl_h r\<bar> \<le> \<bar>hl_h r\<bar> / 2 ^ 50)"

text \<open>
  The undo and redo stacks of a tab hold at most \<^verbatim>\<open>MAX_HISTORY_STEPS\<close> snapshots together.
\<close>

definition hist_ok :: "TabState \<Rightarrow> bool" where
  "hist_ok t = (length (history t) + length (future t) \<le> MAX_HISTORY_STEPS)"

text \<open>
  A rectangle of positive width and height; a tab at a positive scale all of whose
  rectangles, stored or in a snapshot, are such.
\<close>

definition pos_rect :: "highlight \<Rightarrow> bool" where
  "pos_rect h = (0 < hl_w h \<and> 0 < hl_h h)"

definition pos_tab :: "TabState \<Rightarrow> bool" where
  "pos_tab t =
     (0 < scale t \<and> list_all pos_rect (highlights t) \<and>
      list_all (list_all pos_rect) (history t) \<and>
      list_all (list_all pos_rect) (future t))"

text \<open>
  The fit-to-width handler divides \<^verbatim>\<open>canvasArea.clientWidth - 48\<close> by the natural page width
  and passes the quotient to \<^verbatim>\<open>setScale\<close> unclamped. \<open>fit_positive\<close> holds of an event unless
  it is a fit-to-width whose area is not wider than 48 pixels or whose page has no positive
  width.
\<close>

fun fit_positive :: "Event \<Rightarrow> bool" where
  "fit_positive (ZoomFit clientWidth naturalW) = (48 < clientWidth \<and> 0 < naturalW)"
| "fit_positive _ = True"

text \<open>
  A sequence of \<^verbatim>\<open>pushHistory\<close> calls on one tab, the \<open>k\<close>-th made when the highlights of the
  tab are \<open>ss ! k\<close>.
\<close>

definition recordAll :: "highlight list list \<Rightarrow> TabState \<Rightarrow> TabState" where
  "recordAll ss t = foldl (\<lambda>t hs. pushHistory (t\<lparr>highlights := hs\<rparr>)) t ss"

section \<open>Example inputs\<close>

text \<open>Three highlights: two on page 1, one on page 2.\<close>

definition h7 :: highlight where
  "h7 = \<lparr>hl_id = 1000, hl_page = 1, hl_x = 7, hl_y = 7, hl_w = 7, hl_h = 7,
          hl_color = ''yellow'', hl_opacity = 100\<rparr>"

definition h8 :: highlight where
  "h8 = \<lparr>hl_id = 2000, hl_page = 1, hl_x = 20, hl_y = 20, hl_w = 10, hl_h = 10,
          hl_color = ''yellow'', hl_opacity = 100\<rparr>"

definition h9 :: highlight where
  "h9 = \<lparr>hl_id = 3000, hl_page = 2, hl_x = 7, hl_y = 7, hl_w = 7, hl_h = 7,
          hl_color = ''green'', hl_opacity = 50\<rparr>"

text \<open>
  An image tab at the default scale 1.5 holding \<open>h7\<close>, with empty stacks (\<open>tab7\<close>); the same
  tab as it is right after \<open>h7\<close> was drawn, the empty snapshot on the undo stack (\<open>tab7u\<close>); and
  as it is after \<open>h8\<close> was drawn as well and that was undone (\<open>tab78\<close>).
\<close>

definition tab7 :: TabState where
  "tab7 = (newTabState 1 ''a.png'' Image)\<lparr>highlights := [h7]\<rparr>"

definition tab7u :: TabState where
  "tab7u = tab7\<lparr>history := [[]]\<rparr>"

text \<open>
  \<open>tab7\<close> as it is after \<open>h7\<close> was drawn and that was undone: no highlight, an empty undo
  stack, \<open>[h7]\<close> on the redo stack.
\<close>

definition tab7r :: TabState where
  "tab7r = tab7\<lparr>highlights := [], future := [[h7]]\<rparr>"

definition tab78 :: TabState where
  "tab78 = tab7\<lparr>history := [[]], future := [[h7, h8]]\<rparr>"

text \<open>A three-page PDF tab on page 1 holding all three highlights.\<close>

definition tab79 :: TabState where
  "tab79 = (newTabState 1 ''a.pdf'' Pdf)\<lparr>totalPages := 3, highlights := [h7, h8, h9]\<rparr>"

text \<open>The application with one of these tabs open and active.\<close>

definition appWith :: "TabState \<Rightarrow> AppState" where
  "appWith t = initState\<lparr>tabs := [t], activeTabId := Some (tab_id t), tabIdCounter := 1\<rparr>"

text \<open>\<open>appWith tab7\<close> with the pointer pressed at (20, 20).\<close>

definition app7d :: AppState where
  "app7d = (appWith tab7)\<lparr>startX := 20, startY := 20, isDrawing := True\<rparr>"

text \<open>Three image tabs, the second one active.\<close>

definition app3 :: AppState where
  "app3 =
     initState
       \<lparr>tabs := [newTabState 1 ''a.png'' Image, newTabState 2 ''b.png'' Image,
                 newTabState 3 ''c.png'' Image],
        activeTabId := Some 2, tabIdCounter := 3\<rparr>"

text \<open>The same three tabs, the third one active.\<close>

definition app3c :: AppState where
  "app3c = app3\<lparr>activeTabId := Some 3\<rparr>"

text \<open>Fifty-one snapshots, told apart by the id of their one highlight.\<close>

definition snapshots51 :: "highlight list list" where
  "snapshots51 = map (\<lambda>k. [h7\<lparr>hl_id := int k\<rparr>]) [0..<51]"

section \<open>Properties of the rounding\<close>

declare ilog2_up.simps [simp del] ilog2_down.simps [simp del]

lemma ilog2_up_bounds: "1 \<le> v \<Longrightarrow> 2 powi (ilog2_up v) \<le> v \<and> v < 2 powi (ilog2_up v + 1)"
proof (induction v rule: ilog2_up.induct)
  case (1 v)
  show ?case
  proof (cases "2 \<le> v")
    case True
    then have "1 \<le> v / 2" by simp
    with "1.IH" True have ih: "2 powi (ilog2_up (v / 2)) \<le> v / 2" "v / 2 < 2 powi (ilog2_up (v / 2) + 1)"
      by auto
    have e: "ilog2_up v = ilog2_up (v / 2) + 1" using True by (subst ilog2_up.simps) simp
    have p: "\<And>k::int. (2::real) powi (k + 1) = 2 powi k * 2" by (simp add: power_int_add)
    show ?thesis using ih unfolding e p by auto
  next
    case False
    then have "ilog2_up v = 0" by (subst ilog2_up.simps) simp
    with False "1.prems" show ?thesis by simp
  qed
qed

lemma ilog2_down_bounds:
  "0 < v \<Longrightarrow> v < 1 \<Longrightarrow> 2 powi (ilog2_down v) \<le> v \<and> v < 2 powi (ilog2_down v + 1)"
proof (induction v rule: ilog2_down.induct)
  case (1 v)
  have e: "ilog2_down v = ilog2_down (v * 2) - 1" using "1.prems" by (subst ilog2_down.simps) simp
  have p: "\<And>k::int. (2::real) powi (k - 1) = 2 powi k / 2" by (simp add: power_int_diff)
  show ?case
  proof (cases "v * 2 < 1")
    case True
    with "1.IH" "1.prems" have "2 powi (ilog2_down (v * 2)) \<le> v * 2" "v * 2 < 2 powi (ilog2_down (v * 2) + 1)"
      by auto
    then show ?thesis unfolding e p by (auto simp: power_int_add)
  next
    case False
    then have "ilog2_down (v * 2) = 0" by (subst ilog2_down.simps) simp
    with False "1.prems" show ?thesis unfolding e by (simp add: power_int_minus)
  qed
qed

lemma ilog2_lower: "v \<noteq> 0 \<Longrightarrow> 2 powi (ilog2 v) \<le> \<bar>v\<bar>"
  using ilog2_up_bounds [of "\<bar>v\<bar>"] ilog2_down_bounds [of "\<bar>v\<bar>"]
  by (auto simp: ilog2_def)

lemma round_half_even_err: "\<bar>of_int (round_half_even t) - t\<bar> \<le> 1 / 2"
  unfolding round_half_even_def Let_def by (auto; linarith)

lemma round64_err: "\<bar>round64 v - v\<bar> \<le> \<bar>v\<bar> / 2 ^ 53"
proof (cases "v = 0")
  case True
  then show ?thesis by (simp add: round64_def)
next
  case False
  define p :: real where "p = 2 powi (ilog2 v - 52)"
  have ppos: "0 < p" by (simp add: p_def)
  have pe: "p = 2 powi (ilog2 v) / 2 ^ 52" by (simp add: p_def power_int_diff)
  have "round64 v - v = (of_int (round_half_even (v / p)) - v / p) * p"
    using False ppos by (simp add: round64_def p_def [symmetric] left_diff_distrib)
  then have "\<bar>round64 v - v\<bar> = \<bar>of_int (round_half_even (v / p)) - v / p\<bar> * p"
    using ppos by (simp add: abs_mult)
  also have "\<dots> \<le> 1 / 2 * p"
    using round_half_even_err [of "v / p"] ppos by (intro mult_right_mono) auto
  also have "\<dots> = 2 powi (ilog2 v) / 2 ^ 53" by (simp add: pe)
  also have "\<dots> \<le> \<bar>v\<bar> / 2 ^ 53" using ilog2_lower [OF False] by (simp add: divide_right_mono)
  finally show ?thesis .
qed

lemma round64_pos: "0 < v \<Longrightarrow> 0 < round64 v"
proof -
  assume v: "0 < v"
  have "v / 2 ^ 53 < v" using v by simp
  moreover have "v - round64 v \<le> v / 2 ^ 53"
    using round64_err [of v] v by (simp only: abs_le_iff abs_of_pos) linarith
  ultimately show ?thesis by linarith
qed

lemma round64_rel: "\<exists>d. \<bar>d\<bar> \<le> 1 / 2 ^ 53 \<and> round64 v = v * (1 + d)"
proof (cases "v = 0")
  case True
  then show ?thesis by (intro exI [of _ 0]) (simp add: round64_def)
next
  case False
  let ?d = "(round64 v - v) / v"
  have "\<bar>?d\<bar> = \<bar>round64 v - v\<bar> / \<bar>v\<bar>" by (simp add: abs_divide)
  also have "\<dots> \<le> (\<bar>v\<bar> / 2 ^ 53) / \<bar>v\<bar>" by (intro divide_right_mono round64_err) simp
  also have "\<dots> = 1 / 2 ^ 53" using False by simp
  finally have "\<bar>?d\<bar> \<le> 1 / 2 ^ 53" .
  moreover have "round64 v = v * (1 + ?d)" using False by (simp add: field_simps)
  ultimately show ?thesis by blast
qed

lemmas round64_eval =
  round64_def ilog2_def ilog2_up.simps ilog2_down.simps round_half_even_def Let_def
  power_int_minus js_add_def js_sub_def js_mul_def js_div_def

lemma round64_abs_le: "\<bar>v\<bar> \<le> m \<Longrightarrow> \<bar>round64 v\<bar> \<le> 9 / 8 * m"
proof -
  assume m: "\<bar>v\<bar> \<le> m"
  have "\<bar>round64 v - v\<bar> \<le> \<bar>v\<bar> / 2 ^ 53" by (rule round64_err)
  also have "\<dots> \<le> \<bar>v\<bar> / 8" by simp
  finally have "\<bar>round64 v - v\<bar> \<le> \<bar>v\<bar> / 8" .
  then show ?thesis using m by linarith
qed

lemma round64_err_le: "\<bar>v\<bar> \<le> m \<Longrightarrow> \<bar>round64 v - v\<bar> \<le> m / 2 ^ 53"
proof -
  assume m: "\<bar>v\<bar> \<le> m"
  have "\<bar>round64 v - v\<bar> \<le> \<bar>v\<bar> / 2 ^ 53" by (rule round64_err)
  also have "\<dots> \<le> m / 2 ^ 53" using m by (simp add: divide_right_mono)
  finally show ?thesis .
qed

text \<open>
  \<open>round64\<close> on numbers whose binary64 value is well known: \<open>0.1\<close> is
  \<open>3602879701896397 / 2 ^ 55\<close>, \<open>1 / 3\<close> is \<open>6004799503160661 / 2 ^ 54\<close>, a representable
  number is left alone, and above \<open>2 ^ 53\<close> the odd integers are ties that go to the
  neighbour with the even significand.
\<close>

lemma round64_known:
  "round64 (1 / 10) = 3602879701896397 / 2 ^ 55"
  "round64 (1 / 3) = 6004799503160661 / 2 ^ 54"
  "round64 (- (1 / 3)) = - (6004799503160661 / 2 ^ 54)"
  "round64 (3 / 2) = 3 / 2"
  "round64 (2 ^ 53 + 1) = 2 ^ 53"
  "round64 (2 ^ 53 + 3) = 2 ^ 53 + 4"
  by (simp_all add: round64_eval)

text \<open>The arithmetic of the examples, evaluated once.\<close>

lemma example_arith:
  "js_sub 14 7 = 7" "js_sub 30 20 = 10" "js_sub 23 20 = 3" "js_sub 40 20 = 20"
  "js_add 7 7 = 14" "js_add 20 10 = 30" "js_sub 10 10 = 0" "js_div (3 / 2) (3 / 2) = 1"
  "js_sub 48 48 = 0" "js_div 0 400 = 0" "js_div 0 (3 / 2) = 0" "js_mul 7 0 = 0"
  by (simp_all add: round64_eval)

lemma js_pos:
  "0 < a \<Longrightarrow> 0 < b \<Longrightarrow> 0 < js_mul a b"
  "0 < a \<Longrightarrow> 0 < b \<Longrightarrow> 0 < js_div a b"
  "0 < a \<Longrightarrow> 0 < b \<Longrightarrow> 0 < js_add a b"
  "b < a \<Longrightarrow> 0 < js_sub a b"
  by (simp_all add: js_mul_def js_div_def js_add_def js_sub_def round64_pos)

section \<open>The active tab\<close>

text \<open>
  A handler \<open>withTab f\<close> whose \<open>f\<close> leaves the id alone changes the active tab to its image under
  \<open>f\<close> and nothing else.
\<close>

lemma find_updFirst:
  assumes "\<And>t. tab_id (f t) = tab_id t"
  shows "find (\<lambda>t. tab_id t = i) (updFirst (\<lambda>t. tab_id t = i) f ts) =
         map_option f (find (\<lambda>t. tab_id t = i) ts)"
  by (induction ts) (simp_all add: assms)

lemma getTab_withTab:
  assumes "\<And>t. tab_id (f t) = tab_id t"
  shows "getTab (withTab f s) = map_option f (getTab s)"
  by (cases "activeTabId s") (simp_all add: getTab_def withTab_def find_updFirst assms)

lemma updFirst_twice:
  assumes "\<And>t. P (f t) = P t"
  shows "updFirst P g (updFirst P f ts) = updFirst P (\<lambda>t. g (f t)) ts"
  by (induction ts) (simp_all add: assms)

lemma updFirst_found:
  assumes "find P ts = Some t" and "f t = t"
  shows "updFirst P f ts = ts"
  using assms by (induction ts) (auto split: if_splits)

lemma withTab_fix: "getTab s = Some t \<Longrightarrow> f t = t \<Longrightarrow> withTab f s = s"
  by (cases "activeTabId s") (auto simp: getTab_def withTab_def updFirst_found)

lemma withTab_withTab:
  assumes "\<And>t. tab_id (f t) = tab_id t"
  shows "withTab g (withTab f s) = withTab (\<lambda>t. g (f t)) s"
  by (cases "activeTabId s") (simp_all add: withTab_def updFirst_twice assms)

lemma withTab_fields [simp]:
  "activeTabId (withTab f s) = activeTabId s"
  "drawMode (withTab f s) = drawMode s"
  "isDrawing (withTab f s) = isDrawing s"
  "tabIdCounter (withTab f s) = tabIdCounter s"
  by (cases "activeTabId s"; simp add: withTab_def)+

lemma getTab_isDrawing [simp]: "getTab (s\<lparr>isDrawing := b\<rparr>) = getTab s"
  by (cases "activeTabId s") (simp_all add: getTab_def)

lemma getTab_in_tabs: "getTab s = Some t \<Longrightarrow> t \<in> set (tabs s)"
  by (cases "activeTabId s") (auto simp: getTab_def find_Some_iff)

lemma getTab_appWith [simp]: "getTab (appWith t) = Some t"
  by (simp add: getTab_def appWith_def)

lemma map_tab_id_updFirst:
  assumes "\<And>t. tab_id (f t) = tab_id t"
  shows "map tab_id (updFirst P f ts) = map tab_id ts"
  by (induction ts) (simp_all add: assms)

lemma ids_withTab:
  assumes "\<And>t. tab_id (f t) = tab_id t"
  shows "map tab_id (tabs (withTab f s)) = map tab_id (tabs s)"
  by (cases "activeTabId s") (simp_all add: withTab_def map_tab_id_updFirst assms)

text \<open>A property of every tab survives a handler that preserves it on the active tab.\<close>

lemma list_all_updFirst:
  assumes "list_all P ts" and "\<And>t. find Q ts = Some t \<Longrightarrow> P t \<Longrightarrow> P (f t)"
  shows "list_all P (updFirst Q f ts)"
  using assms by (induction ts) auto

lemma tabs_withTab:
  assumes "list_all P (tabs s)" and "\<And>t. getTab s = Some t \<Longrightarrow> P t \<Longrightarrow> P (f t)"
  shows "list_all P (tabs (withTab f s))"
proof (cases "activeTabId s")
  case None
  with assms(1) show ?thesis by (simp add: withTab_def)
next
  case (Some i)
  have "list_all P (updFirst (\<lambda>t. tab_id t = i) f (tabs s))"
    using assms(1)
  proof (rule list_all_updFirst)
    fix t assume "find (\<lambda>t. tab_id t = i) (tabs s) = Some t" and "P t"
    with Some assms(2) show "P (f t)" by (simp add: getTab_def)
  qed
  with Some show ?thesis by (simp add: withTab_def)
qed

lemma tab_id_preserved [simp]:
  "tab_id (pushHistory t) = tab_id t"
  "tab_id (undoTab t) = tab_id t"
  "tab_id (redoTab t) = tab_id t"
  "tab_id (setScaleTab v t) = tab_id t"
  "tab_id (rotateTab d ow oh t) = tab_id t"
  "tab_id (eraseAtTab cx cy t) = tab_id t"
  "tab_id (addHighlight h t) = tab_id t"
  "tab_id (deleteHighlightTab i t) = tab_id t"
  "tab_id (clearPageTab t) = tab_id t"
  by (simp_all add: pushHistory_def undoTab_def redoTab_def setScaleTab_def rotateTab_def
      eraseAtTab_def addHighlight_def deleteHighlightTab_def clearPageTab_def Let_def)

text \<open>What the handlers named in the claims do to the active tab.\<close>

lemma getTab_handlers:
  "getTab (undo s) = map_option undoTab (getTab s)"
  "getTab (redo s) = map_option redoTab (getTab s)"
  "getTab (setScale v s) = map_option (setScaleTab v) (getTab s)"
  "getTab (rotate d ow oh s) = map_option (rotateTab d ow oh) (getTab s)"
  "getTab (eraseAt cx cy s) = map_option (eraseAtTab cx cy) (getTab s)"
  "getTab (deleteHighlight i s) = map_option (deleteHighlightTab i) (getTab s)"
  "getTab (clearPage s) = map_option clearPageTab (getTab s)"
  by (simp_all add: undo_def redo_def setScale_def rotate_def eraseAt_def deleteHighlight_def
      clearPage_def getTab_withTab)

section \<open>The examples\<close>

lemmas example_defs =
  h7_def h8_def h9_def tab7_def tab7u_def tab7r_def tab78_def tab79_def appWith_def app7d_def
  app3_def app3c_def
  initState_def newTabState_def PDF_RENDER_SCALE_def

lemmas handler_defs =
  getTab_def withTab_def createTab_def pushHistory_def undoTab_def undo_def redoTab_def
  redo_def rescale_def setScaleTab_def setScale_def zoomIn_def zoomOut_def zoomFit_def
  activateTab_def closeTab_def loadPdfFile_def loadImageFile_def rotateRect_def rotateTab_def
  rotate_def onPointerDown_def containsPoint_def eraseAtTab_def eraseAt_def onPointerMove_def
  addHighlight_def onPointerUp_def onPointerLeave_def deleteHighlightTab_def
  deleteHighlight_def clearPageTab_def clearPage_def prevPage_def nextPage_def gotoPage_def
  MAX_HISTORY_STEPS_def MIN_HIGHLIGHT_PX_def

text \<open>The example states are states of the running application.\<close>

lemma tab7u_reached:
  "getTab (run [LoadImage ''a.png'', PointerDown 7 7, PointerUp 14 14 1000] initState) =
     Some tab7u"
  by (simp add: example_defs handler_defs example_arith)

lemma tab7r_reached:
  "getTab (run [LoadImage ''a.png'', PointerDown 7 7, PointerUp 14 14 1000, Undo] initState) =
     Some tab7r"
  by (simp add: example_defs handler_defs example_arith)

lemma tab78_reached:
  "getTab (run [LoadImage ''a.png'', PointerDown 7 7, PointerUp 14 14 1000,
                PointerDown 20 20, PointerUp 30 30 2000, Undo] initState) = Some tab78"
  by (simp add: example_defs handler_defs example_arith)

lemma app3_reached:
  "run [LoadImage ''a.png'', LoadImage ''b.png'', LoadImage ''c.png'', ActivateTab 2]
     initState = app3"
  by (simp add: example_defs handler_defs example_arith)

lemma app3c_reached:
  "run [LoadImage ''a.png'', LoadImage ''b.png'', LoadImage ''c.png''] initState = app3c"
  by (simp add: example_defs handler_defs example_arith)

section \<open>Rotation: clockwise, then counter-clockwise\<close>

text \<open>
  In exact arithmetic \<open>H - (H - y - h) - h = y\<close>. Each of the four subtractions rounds, and
  each rounding error is at most \<open>2 ^ - 53\<close> of the magnitude of its result.
\<close>

lemma rot_err:
  fixes H y h :: real
  defines "a \<equiv> js_sub H y"
  defines "b \<equiv> js_sub a h"
  defines "c \<equiv> js_sub H b"
  defines "d \<equiv> js_sub c h"
  shows "\<bar>d - y\<bar> \<le> (\<bar>H\<bar> + \<bar>y\<bar> + \<bar>h\<bar>) / 2 ^ 50"
proof -
  define M where "M = \<bar>H\<bar> + \<bar>y\<bar> + \<bar>h\<bar>"
  have M0: "0 \<le> M" by (simp add: M_def)
  have n1: "\<bar>H - y\<bar> \<le> M" unfolding M_def by argo
  have a2: "\<bar>a\<bar> \<le> 9 / 8 * (\<bar>H\<bar> + \<bar>y\<bar>)"
    unfolding a_def js_sub_def by (rule round64_abs_le) linarith
  have n2: "\<bar>a - h\<bar> \<le> 9 / 8 * M" using a2 unfolding M_def by argo
  have b2: "\<bar>b\<bar> \<le> 9 / 8 * (9 / 8 * M)"
    unfolding b_def js_sub_def by (rule round64_abs_le) (rule n2)
  have n3: "\<bar>H - b\<bar> \<le> 145 / 64 * M" using b2 unfolding M_def by argo
  have c2: "\<bar>c\<bar> \<le> 9 / 8 * (145 / 64 * M)"
    unfolding c_def js_sub_def by (rule round64_abs_le) (rule n3)
  have n4: "\<bar>c - h\<bar> \<le> 1817 / 512 * M" using c2 unfolding M_def by argo
  have e1: "\<bar>a - (H - y)\<bar> \<le> M / 2 ^ 53"
    unfolding a_def js_sub_def by (rule round64_err_le) (rule n1)
  have e2: "\<bar>b - (a - h)\<bar> \<le> (9 / 8 * M) / 2 ^ 53"
    unfolding b_def js_sub_def by (rule round64_err_le) (rule n2)
  have e3: "\<bar>c - (H - b)\<bar> \<le> (145 / 64 * M) / 2 ^ 53"
    unfolding c_def js_sub_def by (rule round64_err_le) (rule n3)
  have e4: "\<bar>d - (c - h)\<bar> \<le> (1817 / 512 * M) / 2 ^ 53"
    unfolding d_def js_sub_def by (rule round64_err_le) (rule n4)
  have "d - y = (d - (c - h)) + (c - (H - b)) - (b - (a - h)) - (a - (H - y))" by simp
  then have "\<bar>d - y\<bar> \<le> \<bar>d - (c - h)\<bar> + \<bar>c - (H - b)\<bar> + \<bar>b - (a - h)\<bar> + \<bar>a - (H - y)\<bar>"
    by linarith
  also have "\<dots> \<le> (1817 / 512 * M) / 2 ^ 53 + (145 / 64 * M) / 2 ^ 53 + (9 / 8 * M) / 2 ^ 53 + M / 2 ^ 53"
    using e1 e2 e3 e4 by linarith
  also have "\<dots> \<le> M / 2 ^ 50" using M0 by simp
  finally show ?thesis by (simp add: M_def)
qed

text \<open>
  C1. For every rectangle \<open>r\<close> and all canvas extents \<open>W\<close>, \<open>H\<close>: the clockwise remap of \<^verbatim>\<open>rotate\<close>
  on a \<open>W\<close> by \<open>H\<close> canvas followed by the counter-clockwise remap on the rotated, \<open>H\<close> by \<open>W\<close>
  canvas gives \<open>r\<close> back within floating-point rounding. The fields \<open>x\<close>, \<open>w\<close>, \<open>h\<close> (and id,
  page, colour, opacity) are only copied and return exactly; \<open>y\<close> goes through four
  subtractions and returns within \<open>2 ^ - 50\<close> (four times the machine epsilon \<open>2 ^ - 52\<close>) of
  the magnitudes involved. This holds for every highlight of the tab, in order.
\<close>

theorem rotate_cw_ccw_roundtrip:
  "list_all2
     (\<lambda>r r'. r'\<lparr>hl_y := hl_y r\<rparr> = r \<and>
              \<bar>hl_y r' - hl_y r\<bar> \<le> (\<bar>H\<bar> + \<bar>hl_y r\<bar> + \<bar>hl_h r\<bar>) / 2 ^ 50)
     (highlights tab)
     (highlights (rotateTab CCW H W (rotateTab CW W H tab)))"
proof -
  have rect: "(rotateRect CCW H W (rotateRect CW W H r))\<lparr>hl_y := hl_y r\<rparr> = r \<and>
      \<bar>hl_y (rotateRect CCW H W (rotateRect CW W H r)) - hl_y r\<bar>
        \<le> (\<bar>H\<bar> + \<bar>hl_y r\<bar> + \<bar>hl_h r\<bar>) / 2 ^ 50" for r
    using rot_err [of H "hl_y r" "hl_h r"] by (simp add: rotateRect_def)
  have "highlights (rotateTab CCW H W (rotateTab CW W H tab)) =
        map (\<lambda>r. rotateRect CCW H W (rotateRect CW W H r)) (highlights tab)"
    by (simp add: rotateTab_def)
  then show ?thesis
    using rect by (simp add: list_all2_map2 list_all2_same)
qed

section \<open>Zoom: to another scale and back\<close>

lemma one_plus_prod:
  fixes a b :: real
  assumes "\<bar>a\<bar> \<le> \<alpha>" "\<bar>b\<bar> \<le> \<beta>"
  shows "\<bar>(1 + a) * (1 + b) - 1\<bar> \<le> \<alpha> + \<beta> + \<alpha> * \<beta>"
proof -
  have "\<bar>a * b\<bar> \<le> \<alpha> * \<beta>" unfolding abs_mult using assms by (intro mult_mono) auto
  moreover have "(1 + a) * (1 + b) - 1 = a + b + a * b" by (simp add: algebra_simps)
  ultimately show ?thesis using assms by linarith
qed

lemma four_roundings:
  fixes d1 d2 d3 d4 :: real
  assumes "\<bar>d1\<bar> \<le> 1 / 2 ^ 53" "\<bar>d2\<bar> \<le> 1 / 2 ^ 53" "\<bar>d3\<bar> \<le> 1 / 2 ^ 53" "\<bar>d4\<bar> \<le> 1 / 2 ^ 53"
  shows "\<bar>(1 + d1) * (1 + d2) * ((1 + d3) * (1 + d4)) - 1\<bar> \<le> 1 / 2 ^ 50"
proof -
  define u :: real where "u = 1 / 2 ^ 53"
  have p12: "\<bar>(1 + d1) * (1 + d2) - 1\<bar> \<le> u + u + u * u"
    using assms(1,2) unfolding u_def by (rule one_plus_prod)
  have p34: "\<bar>(1 + d3) * (1 + d4) - 1\<bar> \<le> u + u + u * u"
    using assms(3,4) unfolding u_def by (rule one_plus_prod)
  have "\<bar>(1 + ((1 + d1) * (1 + d2) - 1)) * (1 + ((1 + d3) * (1 + d4) - 1)) - 1\<bar>
        \<le> (u + u + u * u) + (u + u + u * u) + (u + u + u * u) * (u + u + u * u)"
    using p12 p34 by (rule one_plus_prod)
  also have "\<dots> \<le> 1 / 2 ^ 50" by (simp add: u_def)
  finally show ?thesis by simp
qed

lemma rescale_roundtrip_field:
  assumes "s1 \<noteq> 0" "s2 \<noteq> 0"
  shows "\<bar>js_mul (js_mul v (js_div s2 s1)) (js_div s1 s2) - v\<bar> \<le> \<bar>v\<bar> / 2 ^ 50"
proof -
  define r1 where "r1 = js_div s2 s1"
  define r2 where "r2 = js_div s1 s2"
  define m1 where "m1 = js_mul v r1"
  define m2 where "m2 = js_mul m1 r2"
  obtain d1 where d1: "\<bar>d1\<bar> \<le> 1 / 2 ^ 53" "r1 = s2 / s1 * (1 + d1)"
    unfolding r1_def js_div_def using round64_rel by blast
  obtain d2 where d2: "\<bar>d2\<bar> \<le> 1 / 2 ^ 53" "m1 = v * r1 * (1 + d2)"
    unfolding m1_def js_mul_def using round64_rel by blast
  obtain d3 where d3: "\<bar>d3\<bar> \<le> 1 / 2 ^ 53" "r2 = s1 / s2 * (1 + d3)"
    unfolding r2_def js_div_def using round64_rel by blast
  obtain d4 where d4: "\<bar>d4\<bar> \<le> 1 / 2 ^ 53" "m2 = m1 * r2 * (1 + d4)"
    unfolding m2_def js_mul_def using round64_rel by blast
  have "m2 = v * ((1 + d1) * (1 + d2) * ((1 + d3) * (1 + d4)))"
    unfolding d4(2) d2(2) d1(2) d3(2) using assms by (simp add: field_simps)
  then have "m2 - v = v * ((1 + d1) * (1 + d2) * ((1 + d3) * (1 + d4)) - 1)"
    by (simp add: algebra_simps)
  then have "\<bar>m2 - v\<bar> = \<bar>v\<bar> * \<bar>(1 + d1) * (1 + d2) * ((1 + d3) * (1 + d4)) - 1\<bar>"
    by (simp add: abs_mult)
  also have "\<dots> \<le> \<bar>v\<bar> * (1 / 2 ^ 50)"
    by (intro mult_left_mono four_roundings d1 d2 d3 d4) simp
  finally show ?thesis by (simp add: m2_def m1_def r1_def r2_def)
qed

text \<open>
  C2, as stated, fails: the round trip is not exact in binary64. A 7 by 7 highlight at (7, 7)
  on a tab at scale 1.5, zoomed to 1.75 and back to 1.5 (both scales positive), comes back
  with every coordinate equal to \<open>7 + 2 ^ - 50\<close>, which JavaScript prints as
  \<^verbatim>\<open>7.000000000000001\<close>: \<open>1.75 / 1.5\<close> and \<open>1.5 / 1.75\<close> are both rounded, and so are the two
  products. The same as a sequence of events from the initial state: draw the highlight,
  zoom in once, zoom out once.
\<close>

theorem setScale_roundtrip_not_exact:
  "0 < scale tab7 \<and> 0 < (7 / 4 :: real) \<and>
   map hl_x (highlights tab7) = [7] \<and>
   map hl_x (highlights (setScaleTab (scale tab7) (setScaleTab (7 / 4) tab7))) = [7 + 1 / 2 ^ 50] \<and>
   highlights (setScaleTab (scale tab7) (setScaleTab (7 / 4) tab7)) \<noteq> highlights tab7 \<and>
   map_option (\<lambda>t. (scale t, map hl_x (highlights t)))
     (getTab (run [LoadImage ''a.png'', PointerDown 7 7, PointerUp 14 14 1000] initState)) =
     Some (3 / 2, [7]) \<and>
   map_option (\<lambda>t. (scale t, map hl_x (highlights t)))
     (getTab (run [LoadImage ''a.png'', PointerDown 7 7, PointerUp 14 14 1000, ZoomIn, ZoomOut]
                initState)) = Some (3 / 2, [7 + 1 / 2 ^ 50])"
  by (simp add: example_defs handler_defs round64_eval)

text \<open>
  C2, amended. For every tab at a positive scale \<open>s1\<close> and every positive scale \<open>s2\<close>:
  \<^verbatim>\<open>setScale(s2)\<close> followed by \<^verbatim>\<open>setScale(s1)\<close> restores the scale, and returns every stored
  highlight within floating-point rounding: id, page, colour and opacity unchanged, and each
  of \<open>x\<close>, \<open>y\<close>, \<open>w\<close>, \<open>h\<close> within a relative error of \<open>2 ^ - 50\<close> of its original value.
\<close>

theorem setScale_roundtrip_within_rounding:
  assumes "0 < scale tab" and "0 < s2"
  shows "scale (setScaleTab (scale tab) (setScaleTab s2 tab)) = scale tab \<and>
     list_all2 within_rounding
       (highlights tab)
       (highlights (setScaleTab (scale tab) (setScaleTab s2 tab)))"
  using assms rescale_roundtrip_field [of "scale tab" s2]
  by (simp add: setScaleTab_def rescale_def list_all2_map2 list_all2_same Let_def
      within_rounding_def)

theorem setScale_roundtrip_within_rounding_witness:
  "0 < scale tab7 \<and> 0 < (7 / 4 :: real) \<and>
   scale (setScaleTab (scale tab7) (setScaleTab (7 / 4) tab7)) = scale tab7 \<and>
   list_all2 within_rounding
     (highlights tab7)
     (highlights (setScaleTab (scale tab7) (setScaleTab (7 / 4) tab7)))"
proof -
  have p: "0 < scale tab7" "0 < (7 / 4 :: real)"
    by (simp_all add: tab7_def newTabState_def PDF_RENDER_SCALE_def)
  show ?thesis
    using p setScale_roundtrip_within_rounding [OF p] by simp
qed

section \<open>Undo and redo\<close>

lemma redoTab_undoTab: "history t \<noteq> [] \<Longrightarrow> redoTab (undoTab t) = t"
  by (simp add: undoTab_def redoTab_def)

text \<open>
  C5, as stated, fails in its first part, which speaks of every session state. After a
  highlight was drawn and that was undone, the undo stack is empty and the redo stack holds
  \<open>[h7]\<close>. There \<^verbatim>\<open>undo\<close> finds nothing to undo and returns at once, and the \<^verbatim>\<open>redo\<close> right after
  it pops \<open>[h7]\<close>: the highlights are \<open>[h7]\<close>, not the empty sequence that existed just before
  that \<^verbatim>\<open>undo\<close>. As events from the initial state: draw, undo, undo, redo.
\<close>

theorem redo_after_unavailable_undo:
  "map_option highlights (getTab (appWith tab7r)) = Some [] \<and>
   map_option history (getTab (appWith tab7r)) = Some [] \<and>
   undo (appWith tab7r) = appWith tab7r \<and>
   map_option highlights (getTab (redo (undo (appWith tab7r)))) = Some [h7] \<and>
   map_option highlights
     (getTab (run [LoadImage ''a.png'', PointerDown 7 7, PointerUp 14 14 1000, Undo]
                initState)) = Some [] \<and>
   map_option highlights
     (getTab (run [LoadImage ''a.png'', PointerDown 7 7, PointerUp 14 14 1000, Undo, Undo, Redo]
                initState)) = Some [h7]"
  by (simp add: example_defs handler_defs example_arith)

text \<open>
  C5, amended. For every session state whose undo stack is not empty, \<^verbatim>\<open>undo\<close> makes the top
  snapshot the highlight sequence, and \<^verbatim>\<open>redo\<close> invoked immediately after it restores the
  highlight sequence that existed just before that \<^verbatim>\<open>undo\<close>, and with it the history, the
  future and the rest of the state. \<^verbatim>\<open>undo\<close> with an empty undo stack and \<^verbatim>\<open>redo\<close> with an
  empty redo stack each leave the highlights, the history and the future unchanged.
\<close>

theorem redo_after_undo:
  assumes "getTab s = Some tab"
  shows "(history tab \<noteq> [] \<longrightarrow>
            getTab (undo s) =
              Some (tab\<lparr>future := future tab @ [highlights tab],
                        highlights := last (history tab),
                        history := butlast (history tab)\<rparr>) \<and>
            redo (undo s) = s) \<and>
         (history tab = [] \<longrightarrow> undo s = s) \<and>
         (future tab = [] \<longrightarrow> redo s = s)"
proof (intro conjI impI)
  assume h: "history tab \<noteq> []"
  show "getTab (undo s) =
      Some (tab\<lparr>future := future tab @ [highlights tab],
                highlights := last (history tab),
                history := butlast (history tab)\<rparr>)"
    using assms h by (simp add: getTab_handlers undoTab_def)
  have "redo (undo s) = withTab (\<lambda>t. redoTab (undoTab t)) s"
    by (simp add: undo_def redo_def withTab_withTab)
  also have "\<dots> = s"
    using assms h by (intro withTab_fix [of s tab]) (simp_all add: redoTab_undoTab)
  finally show "redo (undo s) = s" .
next
  assume "history tab = []"
  then show "undo s = s"
    unfolding undo_def using assms by (intro withTab_fix [of s tab]) (simp_all add: undoTab_def)
next
  assume "future tab = []"
  then show "redo s = s"
    unfolding redo_def using assms by (intro withTab_fix [of s tab]) (simp_all add: redoTab_def)
qed

text \<open>
  The theorem at \<open>tab7u\<close>, whose undo stack holds one snapshot, and at \<open>tab7\<close>, whose stacks
  are empty.
\<close>

theorem redo_after_undo_witness:
  "getTab (appWith tab7u) = Some tab7u \<and> history tab7u \<noteq> [] \<and>
   getTab (undo (appWith tab7u)) = Some (tab7\<lparr>highlights := [], future := [[h7]]\<rparr>) \<and>
   redo (undo (appWith tab7u)) = appWith tab7u \<and>
   getTab (appWith tab7) = Some tab7 \<and> history tab7 = [] \<and> future tab7 = [] \<and>
   undo (appWith tab7) = appWith tab7 \<and> redo (appWith tab7) = appWith tab7"
proof -
  have a: "getTab (appWith tab7u) = Some tab7u" and b: "getTab (appWith tab7) = Some tab7"
    by simp_all
  have c: "history tab7u \<noteq> []" "history tab7 = []" "future tab7 = []"
    by (simp_all add: tab7u_def tab7_def newTabState_def)
  have u: "getTab (undo (appWith tab7u)) =
      Some (tab7u\<lparr>future := future tab7u @ [highlights tab7u],
                  highlights := last (history tab7u),
                  history := butlast (history tab7u)\<rparr>)"
    and r: "redo (undo (appWith tab7u)) = appWith tab7u"
    using redo_after_undo [OF a] c by simp_all
  have n: "undo (appWith tab7) = appWith tab7" "redo (appWith tab7) = appWith tab7"
    using redo_after_undo [OF b] c by simp_all
  show ?thesis
    using a b c r n u by (simp add: tab7u_def tab7_def newTabState_def)
qed

section \<open>The bound on the history\<close>

lemma history_pushHistory:
  "history (pushHistory t) =
     (if length (history t) < 50 then history t @ [highlights t]
      else tl (history t) @ [highlights t])"
  by (cases "history t") (auto simp: pushHistory_def MAX_HISTORY_STEPS_def Let_def)

lemma pushHistory_simps [simp]:
  "highlights (pushHistory t) = highlights t"
  "future (pushHistory t) = []"
  "currentPage (pushHistory t) = currentPage t"
  "scale (pushHistory t) = scale t"
  by (simp_all add: pushHistory_def Let_def)

lemma history_recordAll:
  "length (history t) \<le> 50 \<Longrightarrow>
   history (recordAll ss t) = drop (length (history t @ ss) - 50) (history t @ ss)"
proof (induction ss arbitrary: t)
  case Nil
  then show ?case by (simp add: recordAll_def)
next
  case (Cons x xs)
  let ?t = "pushHistory (t\<lparr>highlights := x\<rparr>)"
  have h: "history ?t =
      (if length (history t) < 50 then history t @ [x] else tl (history t) @ [x])"
    by (simp add: history_pushHistory)
  have r: "recordAll (x # xs) t = recordAll xs ?t" by (simp add: recordAll_def)
  show ?case
  proof (cases "length (history t) < 50")
    case True
    with h have "history ?t = history t @ [x]" by simp
    moreover from this True have "length (history ?t) \<le> 50" by simp
    ultimately show ?thesis using Cons.IH [of ?t] by (simp add: r)
  next
    case False
    with Cons.prems have l: "length (history t) = 50" by simp
    then obtain y ys where ys: "history t = y # ys" by (cases "history t") auto
    from False h have ht: "history ?t = tl (history t) @ [x]" by simp
    with l have "length (history ?t) \<le> 50" by simp
    from Cons.IH [OF this] ht l ys show ?thesis by (simp add: r)
  qed
qed

text \<open>
  \<^verbatim>\<open>redo\<close> pushes onto the history without checking the limit, so the bound on the history
  alone is not preserved step by step; the two stacks together are bounded.
\<close>

lemma hist_ok_pushHistory: "hist_ok t \<Longrightarrow> hist_ok (pushHistory t)"
  by (auto simp: hist_ok_def pushHistory_def MAX_HISTORY_STEPS_def Let_def)

lemma hist_ok_undoTab: "hist_ok t \<Longrightarrow> hist_ok (undoTab t)"
  by (cases "history t" rule: rev_cases) (auto simp: hist_ok_def undoTab_def)

lemma hist_ok_redoTab: "hist_ok t \<Longrightarrow> hist_ok (redoTab t)"
  by (cases "future t" rule: rev_cases) (auto simp: hist_ok_def redoTab_def)

lemma hist_ok_update [simp]:
  "hist_ok (t\<lparr>highlights := hs\<rparr>) = hist_ok t"
  "hist_ok (t\<lparr>scale := v\<rparr>) = hist_ok t"
  "hist_ok (t\<lparr>baseScale := v\<rparr>) = hist_ok t"
  "hist_ok (t\<lparr>rotation := r\<rparr>) = hist_ok t"
  "hist_ok (t\<lparr>currentPage := p\<rparr>) = hist_ok t"
  "hist_ok (t\<lparr>totalPages := p\<rparr>) = hist_ok t"
  by (simp_all add: hist_ok_def)

lemma hist_ok_newTabState [simp]: "hist_ok (newTabState i n ty)"
  by (simp add: hist_ok_def newTabState_def)

lemma hist_ok_tab_ops:
  "hist_ok t \<Longrightarrow> hist_ok (setScaleTab v t)"
  "hist_ok t \<Longrightarrow> hist_ok (rotateTab d ow oh t)"
  "hist_ok t \<Longrightarrow> hist_ok (eraseAtTab cx cy t)"
  "hist_ok t \<Longrightarrow> hist_ok (addHighlight h t)"
  "hist_ok t \<Longrightarrow> hist_ok (deleteHighlightTab i t)"
  "hist_ok t \<Longrightarrow> hist_ok (clearPageTab t)"
  by (simp_all add: setScaleTab_def rotateTab_def eraseAtTab_def addHighlight_def
      deleteHighlightTab_def clearPageTab_def Let_def hist_ok_pushHistory)

text \<open>Opening, activating and closing tabs keep a property that \<^verbatim>\<open>setScale\<close> keeps.\<close>

lemma tabs_activateTab:
  assumes "list_all P (tabs s)" and "\<And>t. P t \<Longrightarrow> P (setScaleTab (scale t) t)"
  shows "list_all P (tabs (activateTab i s))"
proof (cases "getTab (s\<lparr>activeTabId := Some i\<rparr>)")
  case None
  with assms(1) show ?thesis by (simp add: activateTab_def)
next
  case (Some tab)
  have "list_all P (tabs (withTab (setScaleTab (scale tab)) (s\<lparr>activeTabId := Some i\<rparr>)))"
  proof (rule tabs_withTab)
    show "list_all P (tabs (s\<lparr>activeTabId := Some i\<rparr>))" using assms(1) by simp
  next
    fix t assume "getTab (s\<lparr>activeTabId := Some i\<rparr>) = Some t" and "P t"
    with Some assms(2) show "P (setScaleTab (scale tab) t)" by simp
  qed
  with Some show ?thesis by (simp add: activateTab_def setScale_def)
qed

lemma tabs_closeTab:
  assumes "list_all P (tabs s)" and "\<And>t. P t \<Longrightarrow> P (setScaleTab (scale t) t)"
  shows "list_all P (tabs (closeTab i s))"
proof (cases "findIndex (\<lambda>t. tab_id t = i) (tabs s)")
  case None
  with assms(1) show ?thesis by (simp add: closeTab_def)
next
  case (Some idx)
  let ?ts = "take idx (tabs s) @ drop (Suc idx) (tabs s)"
  have ts: "list_all P ?ts"
    using assms(1) by (auto simp: list_all_iff dest: in_set_takeD in_set_dropD)
  then have "list_all P (tabs (activateTab j (s\<lparr>tabs := ?ts\<rparr>)))" for j
    by (intro tabs_activateTab assms(2)) simp_all
  with Some ts show ?thesis by (simp add: closeTab_def Let_def)
qed

lemma tabs_load:
  assumes "list_all P (tabs s)" and "\<And>t. P t \<Longrightarrow> P (setScaleTab (scale t) t)"
    and "\<And>i n ty k. P ((newTabState i n ty)\<lparr>totalPages := k\<rparr>)"
  shows "list_all P (tabs (loadPdfFile n k s))" and "list_all P (tabs (loadImageFile n s))"
  using assms(1,3)
  by (auto simp: loadPdfFile_def loadImageFile_def createTab_def Let_def
      intro!: tabs_activateTab assms(2))

lemma hist_ok_step:
  assumes "list_all hist_ok (tabs s)"
  shows "list_all hist_ok (tabs (step e s))"
proof (cases e)
  case (LoadPdf n k)
  then show ?thesis using assms by (simp add: tabs_load hist_ok_tab_ops)
next
  case (LoadImage n)
  then show ?thesis using assms by (simp add: tabs_load hist_ok_tab_ops)
next
  case (ActivateTab i)
  then show ?thesis using assms by (simp add: tabs_activateTab hist_ok_tab_ops)
next
  case (CloseTab i)
  then show ?thesis using assms by (simp add: tabs_closeTab hist_ok_tab_ops)
next
  case (PointerDown px py)
  then show ?thesis using assms by (simp add: onPointerDown_def)
next
  case (PointerMove px py)
  then show ?thesis using assms
    by (simp add: onPointerMove_def eraseAt_def tabs_withTab hist_ok_tab_ops)
next
  case (PointerUp px py now)
  then show ?thesis using assms
    by (simp add: onPointerUp_def Let_def tabs_withTab hist_ok_tab_ops split: option.split)
next
  case PointerLeave
  then show ?thesis using assms by (simp add: onPointerLeave_def)
next
  case (DeleteHighlight i)
  then show ?thesis using assms by (simp add: deleteHighlight_def tabs_withTab hist_ok_tab_ops)
next
  case ClearPage
  then show ?thesis using assms by (simp add: clearPage_def tabs_withTab hist_ok_tab_ops)
next
  case Undo
  then show ?thesis using assms by (simp add: undo_def tabs_withTab hist_ok_undoTab)
next
  case Redo
  then show ?thesis using assms by (simp add: redo_def tabs_withTab hist_ok_redoTab)
next
  case ZoomIn
  then show ?thesis using assms
    by (simp add: zoomIn_def setScale_def tabs_withTab hist_ok_tab_ops split: option.split)
next
  case ZoomOut
  then show ?thesis using assms
    by (simp add: zoomOut_def setScale_def tabs_withTab hist_ok_tab_ops split: option.split)
next
  case (ZoomFit cw nw)
  then show ?thesis using assms
    by (simp add: zoomFit_def setScale_def Let_def tabs_withTab hist_ok_tab_ops
        split: option.split)
next
  case (Rotate d ow oh)
  then show ?thesis using assms by (simp add: rotate_def tabs_withTab hist_ok_tab_ops)
next
  case PrevPage
  then show ?thesis using assms by (simp add: prevPage_def tabs_withTab)
next
  case NextPage
  then show ?thesis using assms by (simp add: nextPage_def tabs_withTab)
next
  case (GotoPage n)
  then show ?thesis using assms by (simp add: gotoPage_def tabs_withTab)
next
  case (SetDrawMode m)
  then show ?thesis using assms by simp
next
  case (SetColor c)
  then show ?thesis using assms by simp
next
  case (SetOpacity p)
  then show ?thesis using assms by simp
qed

lemma hist_ok_run:
  "list_all hist_ok (tabs s) \<Longrightarrow> list_all hist_ok (tabs (run es s))"
  by (induction es arbitrary: s) (simp_all add: hist_ok_step)

text \<open>
  C4. In every tab, after any sequence of events from the initial state, the undo stack holds
  at most 50 snapshots. A sequence of \<^verbatim>\<open>pushHistory\<close> calls on a tab within the bound leaves
  the most recent 50 of the old entries and the new snapshots, oldest evicted first: 51 calls
  on an empty history keep the last 50 snapshots. Every \<^verbatim>\<open>pushHistory\<close> call empties the redo
  stack.
\<close>

theorem history_bounded_oldest_evicted:
  "list_all (\<lambda>t. length (history t) \<le> 50) (tabs (run es initState)) \<and>
   (length (history t) \<le> 50 \<longrightarrow>
      history (recordAll ss t) = drop (length (history t @ ss) - 50) (history t @ ss)) \<and>
   future (pushHistory t) = []"
proof (intro conjI impI)
  have "list_all hist_ok (tabs (run es initState))"
    by (rule hist_ok_run) (simp add: initState_def)
  then show "list_all (\<lambda>t. length (history t) \<le> 50) (tabs (run es initState))"
    by (auto simp: list_all_iff hist_ok_def MAX_HISTORY_STEPS_def)
qed (simp_all add: history_recordAll)

text \<open>Fifty-one snapshots recorded on a fresh tab: the first one is gone, fifty remain.\<close>

theorem history_bounded_oldest_evicted_witness:
  "length (history (newTabState 1 ''a.png'' Image)) \<le> 50 \<and>
   length snapshots51 = 51 \<and>
   history (recordAll snapshots51 (newTabState 1 ''a.png'' Image)) = tl snapshots51 \<and>
   length (history (recordAll snapshots51 (newTabState 1 ''a.png'' Image))) = 50 \<and>
   list_all (\<lambda>t. length (history t) \<le> 50)
     (tabs (run [LoadImage ''a.png'', PointerDown 7 7, PointerUp 14 14 1000, Undo, Redo]
              initState))"
proof -
  have a: "length (history (newTabState 1 ''a.png'' Image)) \<le> 50"
    by (simp add: newTabState_def)
  have b: "length snapshots51 = 51" by (simp add: snapshots51_def)
  show ?thesis
    using a b
      history_bounded_oldest_evicted
        [of "[LoadImage ''a.png'', PointerDown 7 7, PointerUp 14 14 1000, Undo, Redo]"
            "newTabState 1 ''a.png'' Image" snapshots51]
    by (simp add: newTabState_def drop_Suc)
qed

section \<open>Which mutations are recorded\<close>

text \<open>
  Adding a highlight, deleting by id and clearing the page call \<^verbatim>\<open>pushHistory\<close> first: one
  \<^verbatim>\<open>undo\<close> afterwards restores the highlights as they were before.
\<close>

lemma undoTab_pushHistory:
  "highlights (undoTab ((pushHistory t)\<lparr>highlights := hs\<rparr>)) = highlights t"
  by (simp add: undoTab_def history_pushHistory)

lemma addHighlight_undo: "highlights (undoTab (addHighlight h t)) = highlights t"
  by (simp add: addHighlight_def Let_def undoTab_pushHistory)

lemma deleteHighlight_undo: "highlights (undoTab (deleteHighlightTab i t)) = highlights t"
  by (simp add: deleteHighlightTab_def Let_def undoTab_pushHistory)

lemma clearPage_undo: "highlights (undoTab (clearPageTab t)) = highlights t"
  by (simp add: clearPageTab_def Let_def undoTab_pushHistory)

text \<open>
  C3 does not hold of erasing by point: \<^verbatim>\<open>eraseAt\<close> removes highlights without calling
  \<^verbatim>\<open>pushHistory\<close>. On \<open>tab7u\<close> (the highlight \<open>h7\<close> just drawn, the empty snapshot on the undo
  stack) erasing at (10, 10) removes \<open>h7\<close> and leaves the undo stack as it was; \<^verbatim>\<open>undo\<close> then
  restores the snapshot taken before \<open>h7\<close> was drawn, not the highlights before the erase.
  The same as a sequence of events from the initial state: draw, switch to the eraser, drag
  over the highlight, undo.
\<close>

theorem eraseAt_not_recorded:
  "map_option highlights (getTab (appWith tab7u)) = Some [h7] \<and>
   map_option history (getTab (appWith tab7u)) = Some [[]] \<and>
   map_option highlights (getTab (eraseAt 10 10 (appWith tab7u))) = Some [] \<and>
   map_option history (getTab (eraseAt 10 10 (appWith tab7u))) = Some [[]] \<and>
   map_option highlights (getTab (undo (eraseAt 10 10 (appWith tab7u)))) = Some [] \<and>
   map_option highlights
     (getTab (run [LoadImage ''a.png'', PointerDown 7 7, PointerUp 14 14 1000,
                   SetDrawMode Erase, PointerDown 10 10, PointerMove 10 10,
                   PointerUp 10 10 2000, Undo] initState)) = Some []"
  by (simp add: example_defs handler_defs example_arith)

text \<open>
  C10. For every application state with an active tab and every id that no stored highlight
  of that tab has: \<^verbatim>\<open>deleteHighlight\<close> leaves the highlights unchanged, empties the redo stack
  and pushes a snapshot equal to the current highlights onto the undo stack (evicting the
  oldest entry when 50 are already held).
\<close>

theorem deleteHighlight_absent_id:
  assumes "getTab s = Some tab" and "\<forall>h \<in> set (highlights tab). hl_id h \<noteq> i"
  shows "getTab (deleteHighlight i s) = Some (pushHistory tab) \<and>
         highlights (pushHistory tab) = highlights tab \<and>
         future (pushHistory tab) = [] \<and>
         history (pushHistory tab) =
           (if length (history tab) < 50 then history tab @ [highlights tab]
            else tl (history tab) @ [highlights tab])"
proof -
  have "filter (\<lambda>h. hl_id h \<noteq> i) (highlights tab) = highlights tab"
    using assms(2) by (simp add: filter_id_conv)
  then have "deleteHighlightTab i tab = pushHistory tab"
    by (simp add: deleteHighlightTab_def Let_def)
  then show ?thesis
    using assms(1) by (simp add: getTab_handlers history_pushHistory)
qed

text \<open>
  The theorem at \<open>tab78\<close>, which holds \<open>h7\<close> (id 1000) and has a redo stack: deleting the id 42
  keeps \<open>h7\<close>, pushes \<open>[h7]\<close> and loses the redo entry.
\<close>

theorem deleteHighlight_absent_id_witness:
  "getTab (appWith tab78) = Some tab78 \<and> map hl_id (highlights tab78) = [1000] \<and>
   future tab78 = [[h7, h8]] \<and>
   getTab (deleteHighlight 42 (appWith tab78)) =
     Some (tab78\<lparr>history := [[], [h7]], future := []\<rparr>)"
proof -
  have a: "getTab (appWith tab78) = Some tab78" by simp
  have b: "\<forall>h \<in> set (highlights tab78). hl_id h \<noteq> 42"
    by (simp add: tab78_def tab7_def h7_def)
  have "getTab (deleteHighlight 42 (appWith tab78)) = Some (pushHistory tab78)"
    using deleteHighlight_absent_id [OF a b] by simp
  then show ?thesis
    using a by (simp add: tab78_def tab7_def h7_def newTabState_def pushHistory_def
        MAX_HISTORY_STEPS_def)
qed

section \<open>Adding a highlight\<close>

lemma pos_rect_rescale: "0 < r \<Longrightarrow> pos_rect h \<Longrightarrow> pos_rect (rescale r h)"
  by (simp add: pos_rect_def rescale_def js_pos)

lemma pos_rect_rotateRect: "pos_rect h \<Longrightarrow> pos_rect (rotateRect d ow oh h)"
  by (cases d) (simp_all add: pos_rect_def rotateRect_def)

lemma pos_tab_pushHistory: "pos_tab t \<Longrightarrow> pos_tab (pushHistory t)"
  by (cases "history t") (auto simp: pos_tab_def pushHistory_def Let_def)

lemma pos_tab_undoTab: "pos_tab t \<Longrightarrow> pos_tab (undoTab t)"
  by (cases "history t" rule: rev_cases) (auto simp: pos_tab_def undoTab_def)

lemma pos_tab_redoTab: "pos_tab t \<Longrightarrow> pos_tab (redoTab t)"
  by (cases "future t" rule: rev_cases) (auto simp: pos_tab_def redoTab_def)

lemma pos_tab_setScaleTab: "pos_tab t \<Longrightarrow> 0 < v \<Longrightarrow> pos_tab (setScaleTab v t)"
  by (auto simp: pos_tab_def setScaleTab_def Let_def list_all_iff intro!: pos_rect_rescale js_pos)

lemma pos_tab_rotateTab: "pos_tab t \<Longrightarrow> pos_tab (rotateTab d ow oh t)"
  by (auto simp: pos_tab_def rotateTab_def list_all_iff intro!: pos_rect_rotateRect)

lemma pos_tab_filter: "pos_tab t \<Longrightarrow> pos_tab (t\<lparr>highlights := filter Q (highlights t)\<rparr>)"
  by (auto simp: pos_tab_def list_all_iff)

lemma pos_tab_eraseAtTab: "pos_tab t \<Longrightarrow> pos_tab (eraseAtTab cx cy t)"
  unfolding eraseAtTab_def by (rule pos_tab_filter)

lemma pos_tab_addHighlight: "pos_tab t \<Longrightarrow> pos_rect h \<Longrightarrow> pos_tab (addHighlight h t)"
  using pos_tab_pushHistory [of t] by (simp add: addHighlight_def Let_def pos_tab_def)

lemma pos_tab_deleteHighlightTab: "pos_tab t \<Longrightarrow> pos_tab (deleteHighlightTab i t)"
  unfolding deleteHighlightTab_def Let_def by (intro pos_tab_filter pos_tab_pushHistory)

lemma pos_tab_clearPageTab: "pos_tab t \<Longrightarrow> pos_tab (clearPageTab t)"
  unfolding clearPageTab_def Let_def by (intro pos_tab_filter pos_tab_pushHistory)

lemma pos_tab_update [simp]:
  "pos_tab (t\<lparr>baseScale := v\<rparr>) = pos_tab t"
  "pos_tab (t\<lparr>currentPage := p\<rparr>) = pos_tab t"
  "pos_tab (t\<lparr>totalPages := p\<rparr>) = pos_tab t"
  by (simp_all add: pos_tab_def)

lemma pos_tab_newTabState [simp]: "pos_tab (newTabState i n ty)"
  by (simp add: pos_tab_def newTabState_def PDF_RENDER_SCALE_def)

lemma pos_tab_activate: "pos_tab t \<Longrightarrow> pos_tab (setScaleTab (scale t) t)"
  by (rule pos_tab_setScaleTab) (simp_all add: pos_tab_def)

lemma pos_tab_step:
  assumes "list_all pos_tab (tabs s)" and "fit_positive e"
  shows "list_all pos_tab (tabs (step e s))"
proof (cases e)
  case (LoadPdf n k)
  then show ?thesis using assms by (simp add: tabs_load pos_tab_activate)
next
  case (LoadImage n)
  then show ?thesis using assms by (simp add: tabs_load pos_tab_activate)
next
  case (ActivateTab i)
  then show ?thesis using assms by (simp add: tabs_activateTab pos_tab_activate)
next
  case (CloseTab i)
  then show ?thesis using assms by (simp add: tabs_closeTab pos_tab_activate)
next
  case (PointerDown px py)
  then show ?thesis using assms by (simp add: onPointerDown_def)
next
  case (PointerMove px py)
  then show ?thesis using assms
    by (simp add: onPointerMove_def eraseAt_def tabs_withTab pos_tab_eraseAtTab)
next
  case (PointerUp px py now)
  then show ?thesis using assms
    by (auto simp: onPointerUp_def Let_def MIN_HIGHLIGHT_PX_def pos_rect_def
        split: option.split intro!: tabs_withTab pos_tab_addHighlight)
next
  case PointerLeave
  then show ?thesis using assms by (simp add: onPointerLeave_def)
next
  case (DeleteHighlight i)
  then show ?thesis using assms
    by (simp add: deleteHighlight_def tabs_withTab pos_tab_deleteHighlightTab)
next
  case ClearPage
  then show ?thesis using assms by (simp add: clearPage_def tabs_withTab pos_tab_clearPageTab)
next
  case Undo
  then show ?thesis using assms by (simp add: undo_def tabs_withTab pos_tab_undoTab)
next
  case Redo
  then show ?thesis using assms by (simp add: redo_def tabs_withTab pos_tab_redoTab)
next
  case ZoomIn
  show ?thesis
  proof (cases "getTab s")
    case None
    with ZoomIn assms show ?thesis by (simp add: zoomIn_def)
  next
    case (Some tab)
    with assms(1) have "0 < scale tab"
      using getTab_in_tabs [OF Some] by (auto simp: list_all_iff pos_tab_def)
    then have "0 < min (js_add (scale tab) (1 / 4)) 5" by (simp add: js_pos)
    with ZoomIn Some assms(1) show ?thesis
      by (simp add: zoomIn_def setScale_def tabs_withTab pos_tab_setScaleTab)
  qed
next
  case ZoomOut
  have "0 < max (js_sub v (1 / 4)) (1 / 4)" for v by simp
  with ZoomOut assms(1) show ?thesis
    by (simp add: zoomOut_def setScale_def tabs_withTab pos_tab_setScaleTab
        split: option.split)
next
  case (ZoomFit cw nw)
  with assms(2) have "0 < js_div (js_sub cw 48) nw" by (simp add: js_pos)
  with ZoomFit assms(1) show ?thesis
    by (simp add: zoomFit_def setScale_def Let_def tabs_withTab pos_tab_setScaleTab
        split: option.split)
next
  case (Rotate d ow oh)
  then show ?thesis using assms by (simp add: rotate_def tabs_withTab pos_tab_rotateTab)
next
  case PrevPage
  then show ?thesis using assms by (simp add: prevPage_def tabs_withTab)
next
  case NextPage
  then show ?thesis using assms by (simp add: nextPage_def tabs_withTab)
next
  case (GotoPage n)
  then show ?thesis using assms by (simp add: gotoPage_def tabs_withTab)
next
  case (SetDrawMode m)
  then show ?thesis using assms by simp
next
  case (SetColor c)
  then show ?thesis using assms by simp
next
  case (SetOpacity p)
  then show ?thesis using assms by simp
qed

lemma pos_tab_run:
  "list_all pos_tab (tabs s) \<Longrightarrow> list_all fit_positive es \<Longrightarrow>
   list_all pos_tab (tabs (run es s))"
  by (induction es arbitrary: s) (simp_all add: pos_tab_step)

lemma onPointerUp_tabs_rejected:
  "\<bar>js_sub px (startX s)\<bar> < 5 \<or> \<bar>js_sub py (startY s)\<bar> < 5 \<Longrightarrow>
   tabs (onPointerUp px py now s) = tabs s"
  by (auto simp: onPointerUp_def Let_def MIN_HIGHLIGHT_PX_def split: option.split)

lemma onPointerUp_cases:
  assumes "getTab s = Some tab"
  shows "getTab (onPointerUp px py now s) = Some tab \<or>
     (\<exists>hl. getTab (onPointerUp px py now s) = Some (addHighlight hl tab) \<and>
           highlights (addHighlight hl tab) = highlights tab @ [hl] \<and>
           5 \<le> hl_w hl \<and> 5 \<le> hl_h hl)"
  using assms
  by (auto simp: onPointerUp_def Let_def MIN_HIGHLIGHT_PX_def getTab_withTab addHighlight_def)

text \<open>
  C6 does not hold of the code in its last part: a stored highlight does not keep a positive
  width and height at all times. The zoom-in and zoom-out handlers clamp the scale they pass
  to \<^verbatim>\<open>setScale\<close> (\<^verbatim>\<open>Math.min(..., 5)\<close>, \<^verbatim>\<open>Math.max(..., 0.25)\<close>); the fit-to-width handler
  passes \<^verbatim>\<open>(clientWidth - 48) / naturalW\<close> as it is. With a canvas area 48 pixels wide the
  quotient is 0, \<^verbatim>\<open>setScale(0)\<close> multiplies every stored highlight by \<^verbatim>\<open>0 / 1.5\<close>, and the 7
  by 7 highlight drawn before is stored with width and height 0; with an area 40 pixels
  wide the scale is negative and so are the stored width and height.
\<close>

theorem zoomFit_narrow_area_collapses:
  "map_option (map (\<lambda>h. (hl_w h, hl_h h)) \<circ> highlights)
     (getTab (run [LoadImage ''a.png'', PointerDown 7 7, PointerUp 14 14 1000] initState)) =
     Some [(7, 7)] \<and>
   map_option (\<lambda>t. (scale t, map (\<lambda>h. (hl_w h, hl_h h)) (highlights t)))
     (getTab (run [LoadImage ''a.png'', PointerDown 7 7, PointerUp 14 14 1000, ZoomFit 48 400]
                initState)) = Some (0, [(0, 0)]) \<and>
   map_option (\<lambda>t. scale t < 0 \<and> list_all (\<lambda>h. hl_w h < 0 \<and> hl_h h < 0) (highlights t))
     (getTab (run [LoadImage ''a.png'', PointerDown 7 7, PointerUp 14 14 1000, ZoomFit 40 400]
                initState)) = Some True"
  by (simp add: example_defs handler_defs round64_eval)

text \<open>
  What does hold of the add operation: a pointer-up whose drag is narrower or lower than 5
  pixels leaves every tab as it was (highlights, history and future); whatever the drag, the
  active tab afterwards is either unchanged or has gained exactly one highlight, of width and
  height at least 5; and the sizes stay positive along every sequence of events in which no
  fit-to-width computes a non-positive scale.
\<close>

lemma add_rejects_small_rectangles:
  "((\<bar>js_sub px (startX s)\<bar> < 5 \<or> \<bar>js_sub py (startY s)\<bar> < 5) \<longrightarrow>
      tabs (onPointerUp px py now s) = tabs s) \<and>
   (getTab s = Some tab \<longrightarrow>
      getTab (onPointerUp px py now s) = Some tab \<or>
      (\<exists>hl. getTab (onPointerUp px py now s) = Some (addHighlight hl tab) \<and>
            highlights (addHighlight hl tab) = highlights tab @ [hl] \<and>
            5 \<le> hl_w hl \<and> 5 \<le> hl_h hl)) \<and>
   (list_all fit_positive es \<longrightarrow>
      list_all (\<lambda>t. list_all (\<lambda>h. 0 < hl_w h \<and> 0 < hl_h h) (highlights t))
        (tabs (run es initState)))"
proof (intro conjI impI)
  assume "list_all fit_positive es"
  then have "list_all pos_tab (tabs (run es initState))"
    by (intro pos_tab_run) (simp_all add: initState_def)
  then show "list_all (\<lambda>t. list_all (\<lambda>h. 0 < hl_w h \<and> 0 < hl_h h) (highlights t))
        (tabs (run es initState))"
    by (auto simp: list_all_iff pos_tab_def pos_rect_def)
qed (simp_all add: onPointerUp_tabs_rejected onPointerUp_cases)

text \<open>
  The lemma at \<open>app7d\<close>, the pointer pressed at (20, 20): a release at (23, 40) is 3 pixels
  wide and changes no tab; and at a sequence of events with a fit-to-width on an 848 pixel
  wide area.
\<close>

lemma add_rejects_small_rectangles_example:
  "\<bar>js_sub 23 (startX app7d)\<bar> < 5 \<and>
   tabs (onPointerUp 23 40 2000 app7d) = tabs app7d \<and>
   getTab app7d = Some tab7 \<and>
   getTab (onPointerUp 30 30 2000 app7d) = Some (addHighlight h8 tab7) \<and>
   list_all fit_positive
     [LoadImage ''a.png'', PointerDown 7 7, PointerUp 14 14 1000, ZoomFit 848 400, Rotate CW 800 600] \<and>
   list_all (\<lambda>t. list_all (\<lambda>h. 0 < hl_w h \<and> 0 < hl_h h) (highlights t))
     (tabs (run [LoadImage ''a.png'', PointerDown 7 7, PointerUp 14 14 1000, ZoomFit 848 400,
                 Rotate CW 800 600] initState))"
proof -
  have a: "\<bar>js_sub 23 (startX app7d)\<bar> < 5" by (simp add: app7d_def example_arith)
  have b: "getTab app7d = Some tab7" by (simp add: app7d_def appWith_def getTab_def)
  have c: "list_all fit_positive
     [LoadImage ''a.png'', PointerDown 7 7, PointerUp 14 14 1000, ZoomFit 848 400, Rotate CW 800 600]"
    by simp
  note t = add_rejects_small_rectangles
      [of 23 app7d 40 2000 tab7
          "[LoadImage ''a.png'', PointerDown 7 7, PointerUp 14 14 1000, ZoomFit 848 400,
            Rotate CW 800 600]"]
  have d: "tabs (onPointerUp 23 40 2000 app7d) = tabs app7d" using t a by blast
  have e: "list_all (\<lambda>t. list_all (\<lambda>h. 0 < hl_w h \<and> 0 < hl_h h) (highlights t))
     (tabs (run [LoadImage ''a.png'', PointerDown 7 7, PointerUp 14 14 1000, ZoomFit 848 400,
                 Rotate CW 800 600] initState))"
    using t c by blast
  have f: "getTab (onPointerUp 30 30 2000 app7d) = Some (addHighlight h8 tab7)"
    by (simp add: example_defs handler_defs example_arith)
  show ?thesis using a b c d e f by simp
qed

text \<open>
  A new highlight whose clock reading exceeds every stored id keeps the ids strictly
  increasing, hence distinct.
\<close>

lemma addHighlight_ids_increasing:
  assumes "sorted_wrt (<) (map hl_id (highlights t))"
    and "\<forall>h \<in> set (highlights t). hl_id h < hl_id hl"
  shows "sorted_wrt (<) (map hl_id (highlights (addHighlight hl t)))"
  using assms by (simp add: addHighlight_def Let_def sorted_wrt_append)

text \<open>
  C8 does not hold of the code: the id of a highlight is the reading of \<^verbatim>\<open>Date.now()\<close>, the
  wall clock in milliseconds, not a counter. Two highlights drawn while the clock reads the
  same millisecond get the same id, and a highlight drawn after the clock was set back gets a
  smaller id than its predecessor. With two highlights of id 1000, \<^verbatim>\<open>deleteHighlight(1000)\<close>
  removes both.
\<close>

theorem highlight_ids_from_clock_collide:
  "map_option (map hl_id \<circ> highlights) (getTab
      (run [LoadImage ''a.png'', PointerDown 7 7, PointerUp 14 14 1000,
            PointerDown 20 20, PointerUp 30 30 1000] initState)) = Some [1000, 1000] \<and>
   map_option (map hl_id \<circ> highlights) (getTab
      (run [LoadImage ''a.png'', PointerDown 7 7, PointerUp 14 14 1000,
            PointerDown 20 20, PointerUp 30 30 999] initState)) = Some [1000, 999] \<and>
   map_option highlights (getTab
      (run [LoadImage ''a.png'', PointerDown 7 7, PointerUp 14 14 1000,
            PointerDown 20 20, PointerUp 30 30 1000, DeleteHighlight 1000] initState)) =
     Some []"
  by (simp add: example_defs handler_defs example_arith)

section \<open>Erasing at a point\<close>

lemma erase_pred:
  "(\<lambda>h. if hl_page h \<noteq> currentPage tab then True else \<not> containsPoint cx cy h) =
   (\<lambda>h. \<not> (hl_page h = currentPage tab \<and>
            cx \<in> {hl_x h .. js_add (hl_x h) (hl_w h)} \<and>
            cy \<in> {hl_y h .. js_add (hl_y h) (hl_h h)}))"
  by (rule ext) (simp add: containsPoint_def)

text \<open>
  C7. For every application state with an active tab and every point \<open>(cx, cy)\<close>: \<^verbatim>\<open>eraseAt\<close>
  keeps, in order, exactly the highlights that are not both on the current page and around
  the point. So a stored highlight \<open>h\<close> is removed if and only if it is on the current page
  and \<open>cx\<close> lies in \<open>[h.x, h.x + h.w]\<close> and \<open>cy\<close> in \<open>[h.y, h.y + h.h]\<close>, the bounds included
  (\<open>h.x + h.w\<close> being the sum as JavaScript computes it); all such highlights go in the one
  call; and the highlights of the other pages stay as they are.
\<close>

theorem eraseAt_removes_iff:
  assumes "getTab s = Some tab"
  shows "getTab (eraseAt cx cy s) = Some (eraseAtTab cx cy tab) \<and>
     highlights (eraseAtTab cx cy tab) =
       filter (\<lambda>h. \<not> (hl_page h = currentPage tab \<and>
                        cx \<in> {hl_x h .. js_add (hl_x h) (hl_w h)} \<and>
                        cy \<in> {hl_y h .. js_add (hl_y h) (hl_h h)}))
         (highlights tab) \<and>
     (\<forall>h \<in> set (highlights tab).
        h \<notin> set (highlights (eraseAtTab cx cy tab)) \<longleftrightarrow>
          hl_page h = currentPage tab \<and>
          cx \<in> {hl_x h .. js_add (hl_x h) (hl_w h)} \<and>
          cy \<in> {hl_y h .. js_add (hl_y h) (hl_h h)}) \<and>
     filter (\<lambda>h. hl_page h \<noteq> currentPage tab) (highlights (eraseAtTab cx cy tab)) =
       filter (\<lambda>h. hl_page h \<noteq> currentPage tab) (highlights tab)"
proof (intro conjI)
  show "getTab (eraseAt cx cy s) = Some (eraseAtTab cx cy tab)"
    unfolding eraseAt_def using assms
    by (subst getTab_withTab) (simp_all add: eraseAtTab_def)
  show f: "highlights (eraseAtTab cx cy tab) =
       filter (\<lambda>h. \<not> (hl_page h = currentPage tab \<and>
                        cx \<in> {hl_x h .. js_add (hl_x h) (hl_w h)} \<and>
                        cy \<in> {hl_y h .. js_add (hl_y h) (hl_h h)}))
         (highlights tab)"
    by (simp add: eraseAtTab_def erase_pred)
  show "\<forall>h \<in> set (highlights tab).
        h \<notin> set (highlights (eraseAtTab cx cy tab)) \<longleftrightarrow>
          hl_page h = currentPage tab \<and>
          cx \<in> {hl_x h .. js_add (hl_x h) (hl_w h)} \<and>
          cy \<in> {hl_y h .. js_add (hl_y h) (hl_h h)}"
    unfolding f by auto
  show "filter (\<lambda>h. hl_page h \<noteq> currentPage tab) (highlights (eraseAtTab cx cy tab)) =
       filter (\<lambda>h. hl_page h \<noteq> currentPage tab) (highlights tab)"
    unfolding f filter_filter by (rule filter_cong) auto
qed

text \<open>
  The theorem at \<open>tab79\<close>, on page 1 with \<open>h7\<close> = (7, 7, 7, 7) and \<open>h8\<close> on page 1 and \<open>h9\<close> =
  (7, 7, 7, 7) on page 2. The point (14, 7) lies on the right edge and the top edge of \<open>h7\<close>:
  \<open>h7\<close> is removed, \<open>h9\<close> on the other page is not. The point (15, 7) is outside: nothing is
  removed.
\<close>

theorem eraseAt_removes_iff_witness:
  "getTab (appWith tab79) = Some tab79 \<and>
   map_option highlights (getTab (eraseAt 14 7 (appWith tab79))) = Some [h8, h9] \<and>
   map_option highlights (getTab (eraseAt 15 7 (appWith tab79))) = Some [h7, h8, h9]"
proof -
  have a: "getTab (appWith tab79) = Some tab79" by simp
  show ?thesis
    using a eraseAt_removes_iff [OF a, of 14 7] eraseAt_removes_iff [OF a, of 15 7]
    by (simp add: tab79_def newTabState_def h7_def h8_def h9_def example_arith)
qed

section \<open>Closing a tab\<close>

lemma activateTab_ids:
  "map tab_id (tabs (activateTab j s)) = map tab_id (tabs s)"
  "activeTabId (activateTab j s) = Some j"
  by (simp_all add: activateTab_def Let_def setScale_def ids_withTab split: option.split)

lemma findIndex_Some:
  "findIndex P ts = Some k \<Longrightarrow> k < length ts \<and> P (ts ! k) \<and> (\<forall>j < k. \<not> P (ts ! j))"
proof (induction ts arbitrary: k)
  case Nil
  then show ?case by simp
next
  case (Cons t ts)
  show ?case
  proof (cases "P t")
    case True
    with Cons.prems show ?thesis by simp
  next
    case False
    with Cons.prems obtain k' where k': "findIndex P ts = Some k'" "k = Suc k'" by auto
    from Cons.IH [OF k'(1)] False k'(2) show ?thesis
      by (auto simp: nth_Cons split: nat.split)
  qed
qed

text \<open>
  C9, as stated, fails. With the tabs 1, 2, 3 open and tab 2 active, closing tab 2 activates
  tab 3, the tab that followed it, and not tab 1, the tab at the next lower index.
\<close>

theorem closeTab_activates_successor:
  "map tab_id (tabs app3) = [1, 2, 3] \<and> activeTabId app3 = Some 2 \<and>
   map tab_id (tabs (closeTab 2 app3)) = [1, 3] \<and>
   activeTabId (closeTab 2 app3) = Some 3 \<and>
   activeTabId (closeTab 2 app3) \<noteq> Some (tab_id (tabs app3 ! 0))"
  by (simp add: example_defs handler_defs example_arith)

text \<open>
  What \<^verbatim>\<open>closeTab\<close> computes for a tab open at index \<open>idx\<close>: the ids that remain and the id it
  activates.
\<close>

lemma closeTab_result:
  assumes "findIndex (\<lambda>t. tab_id t = i) (tabs s) = Some idx"
  shows "map tab_id (tabs (closeTab i s)) =
           take idx (map tab_id (tabs s)) @ drop (Suc idx) (map tab_id (tabs s)) \<and>
         activeTabId (closeTab i s) =
           (if length (tabs s) = 1 then None
            else if Suc idx < length (tabs s) then Some (tab_id (tabs s ! Suc idx))
            else Some (tab_id (tabs s ! (idx - 1))))"
proof -
  let ?ts = "take idx (tabs s) @ drop (Suc idx) (tabs s)"
  from findIndex_Some [OF assms] have lt: "idx < length (tabs s)" by simp
  then have len: "length ?ts = length (tabs s) - 1" by simp
  show ?thesis
  proof (cases "length (tabs s) = 1")
    case True
    with lt have "idx = 0" by simp
    with True assms show ?thesis
      by (simp add: closeTab_def Let_def take_map drop_map)
  next
    case False
    with lt have ne: "length ?ts \<noteq> 0" by simp
    have c: "closeTab i s =
        activateTab (tab_id (?ts ! min idx (length ?ts - 1))) (s\<lparr>tabs := ?ts\<rparr>)"
      by (simp only: closeTab_def Let_def assms option.case ne if_False)
    have nth: "?ts ! min idx (length ?ts - 1) =
        (if Suc idx < length (tabs s) then tabs s ! Suc idx else tabs s ! (idx - 1))"
    proof (cases "Suc idx < length (tabs s)")
      case True
      then have "min idx (length ?ts - 1) = idx" using lt by simp
      then show ?thesis using True lt by (simp add: nth_append)
    next
      case F: False
      with lt have e: "Suc idx = length (tabs s)" by simp
      with False have "0 < idx" by simp
      with e have "min idx (length ?ts - 1) = idx - 1" by simp
      then show ?thesis using F e \<open>0 < idx\<close> by (simp add: nth_append)
    qed
    show ?thesis
      unfolding c activateTab_ids nth using False
      by (simp add: take_map drop_map)
  qed
qed

text \<open>
  C9, amended. Closing a session removes it from the registry; if the closed session was the
  active one and other sessions remain, the session that followed it (the one now at the
  closed session's index) becomes active, or the session before it when the closed one was
  the last; and if the registry is empty afterwards no session is active.
\<close>

theorem closeTab_spec:
  assumes "findIndex (\<lambda>t. tab_id t = i) (tabs s) = Some idx"
  shows "map tab_id (tabs (closeTab i s)) =
           take idx (map tab_id (tabs s)) @ drop (Suc idx) (map tab_id (tabs s)) \<and>
         (activeTabId s = Some i \<and> 1 < length (tabs s) \<longrightarrow>
            activeTabId (closeTab i s) =
              Some (if Suc idx < length (tabs s) then tab_id (tabs s ! Suc idx)
                    else tab_id (tabs s ! (idx - 1)))) \<and>
         (tabs (closeTab i s) = [] \<longrightarrow> activeTabId (closeTab i s) = None)"
proof (intro conjI impI)
  note r = closeTab_result [OF assms]
  from findIndex_Some [OF assms] have lt: "idx < length (tabs s)" by simp
  show "map tab_id (tabs (closeTab i s)) =
      take idx (map tab_id (tabs s)) @ drop (Suc idx) (map tab_id (tabs s))"
    using r by simp
  show "activeTabId (closeTab i s) =
      Some (if Suc idx < length (tabs s) then tab_id (tabs s ! Suc idx)
            else tab_id (tabs s ! (idx - 1)))"
    if "activeTabId s = Some i \<and> 1 < length (tabs s)"
    using r that by simp
  show "activeTabId (closeTab i s) = None" if e: "tabs (closeTab i s) = []"
  proof -
    have "length (map tab_id (tabs (closeTab i s))) = length (tabs s) - 1"
      using r lt by simp
    with e have "length (tabs s) = 1" using lt by simp
    with r show ?thesis by simp
  qed
qed

text \<open>
  The theorem at \<open>app3\<close>, closing the active middle tab; at \<open>app3c\<close>, closing the active last
  tab; and at a single tab.
\<close>

theorem closeTab_spec_witness:
  "findIndex (\<lambda>t. tab_id t = 2) (tabs app3) = Some 1 \<and>
   activeTabId app3 = Some 2 \<and> 1 < length (tabs app3) \<and>
   map tab_id (tabs (closeTab 2 app3)) = [1, 3] \<and> activeTabId (closeTab 2 app3) = Some 3 \<and>
   findIndex (\<lambda>t. tab_id t = 3) (tabs app3c) = Some 2 \<and>
   activeTabId app3c = Some 3 \<and> 1 < length (tabs app3c) \<and>
   map tab_id (tabs (closeTab 3 app3c)) = [1, 2] \<and> activeTabId (closeTab 3 app3c) = Some 2 \<and>
   findIndex (\<lambda>t. tab_id t = 1) (tabs (appWith tab7)) = Some 0 \<and>
   tabs (closeTab 1 (appWith tab7)) = [] \<and> activeTabId (closeTab 1 (appWith tab7)) = None"
proof -
  have a: "findIndex (\<lambda>t. tab_id t = 2) (tabs app3) = Some 1"
    and b: "findIndex (\<lambda>t. tab_id t = 3) (tabs app3c) = Some 2"
    and c: "findIndex (\<lambda>t. tab_id t = 1) (tabs (appWith tab7)) = Some 0"
    by (simp_all add: example_defs)
  have act: "activeTabId app3 = Some 2 \<and> 1 < length (tabs app3)"
    "activeTabId app3c = Some 3 \<and> 1 < length (tabs app3c)"
    by (simp_all add: example_defs)
  have ra: "map tab_id (tabs (closeTab 2 app3)) = [1, 3]"
      "activeTabId (closeTab 2 app3) = Some 3"
    using closeTab_spec [OF a] act(1) by (simp_all add: example_defs)
  have rb: "map tab_id (tabs (closeTab 3 app3c)) = [1, 2]"
      "activeTabId (closeTab 3 app3c) = Some 2"
    using closeTab_spec [OF b] act(2) by (simp_all add: example_defs)
  have e: "tabs (closeTab 1 (appWith tab7)) = []"
    using closeTab_spec [OF c] by (simp add: example_defs)
  have rc: "activeTabId (closeTab 1 (appWith tab7)) = None"
    using closeTab_spec [OF c] e by blast
  show ?thesis using a b c act ra rb e rc by simp
qed

end
